theory Spec2Isabelle
  imports Complex_Main
begin

section \<open>Values of the numeric runtime\<close>

text \<open>
  The module \<open>bdpy/dl/torch/torch.py\<close> works on two kinds of values of the numeric
  runtime: plain host arrays (\<open>np.ndarray\<close>) and runtime tensors (\<open>torch.Tensor\<close>).
  An array is its shape and its row-major element buffer. A tensor carries, besides
  shape and buffer, the device it lives on and its link into the computation graph of
  the forward pass that produced it (\<open>grad_fn\<close>: the identity of the graph node, absent
  for a value that is cut off from the graph).
\<close>

datatype error = KeyError | IndexError | ValueError | TypeError
  | LayerNotFound | RuntimeFailure | DecodeError

record 'e ndarray =
  shape :: "nat list"
  elems :: "'e list"

record 'e tensor =
  tshape :: "nat list"
  telems :: "'e list"
  tdevice :: string
  requires_grad :: bool
  grad_fn :: "nat option"

text \<open>The union type \<open>_tensor_t = Union[np.ndarray, torch.Tensor]\<close>.\<close>

datatype 'e tensor_t = Array "'e ndarray" | Tensor "'e tensor"

text \<open>
  The runtime operations the module calls on tensors. \<open>detach\<close> returns the same data
  cut off from the graph; \<open>clone\<close> copies the buffer (values, device and graph link are
  those of its argument); \<open>cpu\<close> moves the data to host memory; \<open>numpy\<close> views a host
  tensor as a plain array; \<open>x[np.newaxis]\<close> adds a leading axis of length one;
  \<open>torch.tensor(a, device=d)\<close> builds a fresh leaf tensor on \<open>d\<close>.
\<close>

definition detach :: "'e tensor \<Rightarrow> 'e tensor" where
  "detach t = t\<lparr>requires_grad := False, grad_fn := None\<rparr>"

definition clone :: "'e tensor \<Rightarrow> 'e tensor" where
  "clone t = t"

definition cpu :: "'e tensor \<Rightarrow> 'e tensor" where
  "cpu t = t\<lparr>tdevice := ''cpu''\<rparr>"

definition numpy :: "'e tensor \<Rightarrow> 'e ndarray" where
  "numpy t = \<lparr>shape = tshape t, elems = telems t\<rparr>"

definition newaxis :: "'e ndarray \<Rightarrow> 'e ndarray" where
  "newaxis a = a\<lparr>shape := 1 # shape a\<rparr>"

definition torch_tensor :: "'e ndarray \<Rightarrow> string \<Rightarrow> 'e tensor" where
  "torch_tensor a dev =
     \<lparr>tshape = shape a, telems = elems a, tdevice = dev,
      requires_grad = False, grad_fn = None\<rparr>"

section \<open>FeatureExtractorHandle\<close>

text \<open>
  The hook object: a buffer of captured outputs. Calling it (the runtime does so with
  the module, its input and its output each time a hooked layer has run) appends
  \<open>module_out.detach().clone()\<close>; \<open>clear\<close> empties the buffer.
\<close>

record 'e handle =
  outputs :: "'e tensor list"

definition handle_init :: "'e handle" where
  "handle_init = \<lparr>outputs = []\<rparr>"

definition handle_call :: "'e handle \<Rightarrow> 'e tensor \<Rightarrow> 'e handle" where
  "handle_call h module_out = h\<lparr>outputs := outputs h @ [clone (detach module_out)]\<rparr>"

definition clear :: "'e handle \<Rightarrow> 'e handle" where
  "clear h = h\<lparr>outputs := []\<rparr>"

section \<open>The encoder\<close>

text \<open>
  The network is an external collaborator, used through three capabilities: resolving a
  layer name to a sublayer (\<open>models._parse_layer_name\<close>, which fails on an unknown
  name), registering a forward hook on a sublayer, and \<open>forward\<close>. A sublayer is
  identified by a number. \<open>net\<close> gives, for an input tensor, the sublayers that run
  during one forward pass, in execution order, each with its output, and whether the
  pass ends in a runtime failure. \<open>fwd_hooks\<close> lists the hook registrations in the order
  they were made (every registration here is of the one shared handle), \<open>enc_device\<close>
  is the device the network was moved to, and \<open>calls\<close> records the argument of every
  \<open>forward\<close> call made on the network.
\<close>

record 'e encoder =
  net :: "'e tensor \<Rightarrow> (nat \<times> 'e tensor) list \<times> error option"
  parse_layer_name :: "string \<Rightarrow> nat option"
  fwd_hooks :: "nat list"
  enc_device :: string
  calls :: "'e tensor list"

definition to_device :: "'e encoder \<Rightarrow> string \<Rightarrow> 'e encoder" where
  "to_device enc dev = enc\<lparr>enc_device := dev\<rparr>"

definition register_forward_hook :: "'e encoder \<Rightarrow> nat \<Rightarrow> 'e encoder" where
  "register_forward_hook enc layer_object = enc\<lparr>fwd_hooks := fwd_hooks enc @ [layer_object]\<rparr>"

text \<open>
  When a sublayer has run, the runtime calls every hook registered on it, in
  registration order, with its output.
\<close>

definition fire :: "nat list \<Rightarrow> 'e handle \<Rightarrow> nat \<times> 'e tensor \<Rightarrow> 'e handle" where
  "fire hooks h ev =
     fold (\<lambda>reg h'. if reg = fst ev then handle_call h' (snd ev) else h') hooks h"

definition forward ::
  "'e encoder \<Rightarrow> 'e handle \<Rightarrow> 'e tensor \<Rightarrow> error option \<times> 'e encoder \<times> 'e handle" where
  "forward enc h xt =
     (case net enc xt of (trace, failure) \<Rightarrow>
        (failure, enc\<lparr>calls := calls enc @ [xt]\<rparr>, fold (\<lambda>ev h'. fire (fwd_hooks enc) h' ev) trace h))"

section \<open>FeatureExtractor\<close>

record 'e feature_extractor =
  encoder :: "'e encoder"
  layers :: "string list"
  layer_map :: "(string \<rightharpoonup> string) option"
  detach_flag :: bool
  device :: string
  extractor :: "'e handle"

text \<open>
  The registration loop of \<open>__init__\<close>: each requested name is sent through the layer
  mapping when there is one (a missing key raises), resolved to a sublayer, and the
  shared handle is registered on that sublayer.
\<close>

fun register_layers ::
  "(string \<rightharpoonup> string) option \<Rightarrow> string list \<Rightarrow> 'e encoder \<Rightarrow> error + 'e encoder" where
  "register_layers lm [] enc = Inr enc"
| "register_layers lm (layer # rest) enc =
     (case (case lm of None \<Rightarrow> Inr layer
            | Some m \<Rightarrow> (case m layer of None \<Rightarrow> Inl KeyError | Some c \<Rightarrow> Inr c)) of
        Inl e \<Rightarrow> Inl e
      | Inr concrete \<Rightarrow>
          (case parse_layer_name enc concrete of
             None \<Rightarrow> Inl LayerNotFound
           | Some layer_object \<Rightarrow>
               register_layers lm rest (register_forward_hook enc layer_object)))"

definition fe_init ::
  "'e encoder \<Rightarrow> string list \<Rightarrow> (string \<rightharpoonup> string) option \<Rightarrow> string \<Rightarrow> bool
     \<Rightarrow> error + 'e feature_extractor" where
  "fe_init enc ls lm dev det =
     (case register_layers lm ls (to_device enc dev) of
        Inl e \<Rightarrow> Inl e
      | Inr enc' \<Rightarrow>
          Inr \<lparr>encoder = enc', layers = ls, layer_map = lm, detach_flag = det,
               device = dev, extractor = handle_init\<rparr>)"

text \<open>
  The dict comprehension \<open>{layer: outputs[i] for i, layer in enumerate(layers)}\<close>:
  entries are written in order, a repeated key overwrites the earlier entry, and
  \<open>outputs[i]\<close> raises when the buffer has no entry \<open>i\<close>.
\<close>

fun collect ::
  "'e tensor list \<Rightarrow> nat \<Rightarrow> string list \<Rightarrow> (string \<rightharpoonup> 'e tensor) \<Rightarrow> error + (string \<rightharpoonup> 'e tensor)" where
  "collect outs i [] acc = Inr acc"
| "collect outs i (layer # rest) acc =
     (if i < length outs then collect outs (Suc i) rest (acc(layer \<mapsto> outs ! i))
      else Inl IndexError)"

text \<open>The second comprehension, \<open>{k: v.cpu().detach().numpy() for k, v in features.items()}\<close>.\<close>

definition to_host :: "(string \<rightharpoonup> 'e tensor) \<Rightarrow> (string \<rightharpoonup> 'e tensor_t)" where
  "to_host features = (\<lambda>k. map_option (\<lambda>v. Array (numpy (detach (cpu v)))) (features k))"

definition as_tensors :: "(string \<rightharpoonup> 'e tensor) \<Rightarrow> (string \<rightharpoonup> 'e tensor_t)" where
  "as_tensors features = (\<lambda>k. map_option Tensor (features k))"

text \<open>The input conversion at the head of \<open>run\<close>.\<close>

definition prepare :: "string \<Rightarrow> 'e tensor_t \<Rightarrow> 'e tensor" where
  "prepare dev x = (case x of Tensor t \<Rightarrow> t | Array a \<Rightarrow> torch_tensor (newaxis a) dev)"

text \<open>
  \<open>run\<close> returns the feature mapping (or the error raised) together with the extractor
  as the call leaves it.
\<close>

definition run ::
  "'e feature_extractor \<Rightarrow> 'e tensor_t
     \<Rightarrow> (error + (string \<rightharpoonup> 'e tensor_t)) \<times> 'e feature_extractor" where
  "run fe x =
     (let h0 = clear (extractor fe);
          xt = prepare (device fe) x
      in case forward (encoder fe) h0 xt of (failure, enc', h1) \<Rightarrow>
           (let fe' = fe\<lparr>encoder := enc', extractor := h1\<rparr>
            in case failure of
                 Some e \<Rightarrow> (Inl e, fe')
               | None \<Rightarrow>
                   (case collect (outputs h1) 0 (layers fe) Map.empty of
                      Inl e \<Rightarrow> (Inl e, fe')
                    | Inr features \<Rightarrow>
                        (Inr (if detach_flag fe then to_host features else as_tensors features),
                         fe'))))"

section \<open>Arithmetic of the array library\<close>

text \<open>
  The image pipeline computes on 64-bit floats. Its arithmetic is a parameter of the
  model: \<open>to_float\<close> is the exact conversion of an 8-bit pixel value (and of the
  literals \<open>255.\<close> and \<open>1\<close>), \<open>fdiv\<close>, \<open>fmul\<close> and \<open>fsub\<close> are the rounded element
  operations, and \<open>to_f32\<close> is the rounding to 32 bits that \<open>torch.Tensor(data)\<close>
  applies. Nothing is assumed of them except where a theorem says so.
\<close>

record 'f arith =
  to_float :: "nat \<Rightarrow> 'f"
  fdiv :: "'f \<Rightarrow> 'f \<Rightarrow> 'f"
  fmul :: "'f \<Rightarrow> 'f \<Rightarrow> 'f"
  fsub :: "'f \<Rightarrow> 'f \<Rightarrow> 'f"
  to_f32 :: "'f \<Rightarrow> 'f"

definition ebind :: "error + 'a \<Rightarrow> ('a \<Rightarrow> error + 'b) \<Rightarrow> error + 'b" where
  "ebind r f = (case r of Inl e \<Rightarrow> Inl e | Inr v \<Rightarrow> f v)"

text \<open>Python sequence indexing: a negative index counts from the end.\<close>

definition py_index :: "'a list \<Rightarrow> int \<Rightarrow> error + 'a" where
  "py_index xs i =
     (if 0 \<le> i \<and> i < int (length xs) then Inr (xs ! nat i)
      else if i < 0 \<and> - int (length xs) \<le> i then Inr (xs ! nat (int (length xs) + i))
      else Inl IndexError)"

section \<open>Images of the imaging library\<close>

text \<open>
  An image of the imaging library (PIL) has a mode, a size, which the library gives as
  (width, height), and a pixel buffer: rows from the top, the bands of a pixel side by
  side. The modes are the 8-bit ones. \<open>np.asarray(img)\<close> is the array of shape
  (height, width, bands), or (height, width) for a single band, over the same buffer;
  \<open>Image.fromarray\<close> goes back, choosing the mode from the number of bands.
\<close>

datatype mode = L | LA | RGB | RGBA | CMYK

fun bands :: "mode \<Rightarrow> nat" where
  "bands L = 1"
| "bands LA = 2"
| "bands RGB = 3"
| "bands RGBA = 4"
| "bands CMYK = 4"

record image =
  mode :: mode
  width :: nat
  height :: nat
  pixels :: "nat list"

definition asarray :: "image \<Rightarrow> nat ndarray" where
  "asarray img =
     \<lparr>shape = (if bands (mode img) = 1 then [height img, width img]
               else [height img, width img, bands (mode img)]),
      elems = pixels img\<rparr>"

definition fromarray :: "nat ndarray \<Rightarrow> error + image" where
  "fromarray a =
     (case shape a of
        [h, w] \<Rightarrow> Inr \<lparr>mode = L, width = w, height = h, pixels = elems a\<rparr>
      | [h, w, c] \<Rightarrow>
          (if c = 2 then Inr \<lparr>mode = LA, width = w, height = h, pixels = elems a\<rparr>
           else if c = 3 then Inr \<lparr>mode = RGB, width = w, height = h, pixels = elems a\<rparr>
           else if c = 4 then Inr \<lparr>mode = RGBA, width = w, height = h, pixels = elems a\<rparr>
           else Inl TypeError)
      | _ \<Rightarrow> Inl TypeError)"

text \<open>
  The pixel computations of the library are parameters: the colour conversion of a CMYK
  image, the blending of an RGBA image onto a white background through its alpha band,
  and resampling to a new size with a filter given by its number. What the calls of the
  source fix is written out: \<open>img.convert('RGB')\<close> and the white background
  \<open>Image.new('RGB', img.size, (255, 255, 255))\<close> are RGB images of the size of \<open>img\<close>,
  and \<open>img.resize(size, resample)\<close> is an image of the mode of \<open>img\<close> whose size is
  \<open>size\<close>, which the library reads as (width, height); it raises a value error
  when a side of \<open>size\<close> is zero (height and width must be positive).
\<close>

record pil =
  cmyk_to_rgb :: "image \<Rightarrow> nat list"
  blend_on_white :: "image \<Rightarrow> nat list"
  resample_px :: "image \<Rightarrow> nat \<times> nat \<Rightarrow> nat \<Rightarrow> nat list"

definition convert_rgb :: "pil \<Rightarrow> image \<Rightarrow> image" where
  "convert_rgb P img =
     \<lparr>mode = RGB, width = width img, height = height img, pixels = cmyk_to_rgb P img\<rparr>"

definition paste_on_white :: "pil \<Rightarrow> image \<Rightarrow> image" where
  "paste_on_white P img =
     \<lparr>mode = RGB, width = width img, height = height img, pixels = blend_on_white P img\<rparr>"

definition pil_resize :: "pil \<Rightarrow> image \<Rightarrow> nat \<times> nat \<Rightarrow> nat \<Rightarrow> error + image" where
  "pil_resize P img sz resample =
     (if fst sz = 0 \<or> snd sz = 0 then Inl ValueError
      else Inr \<lparr>mode = mode img, width = fst sz, height = snd sz,
                pixels = resample_px P img sz resample\<rparr>)"

text \<open>
  The file system maps a path to the image a file decodes to, if it does; \<open>opened\<close>
  records every \<open>Image.open\<close> call.
\<close>

record io =
  files :: "string \<rightharpoonup> image"
  opened :: "string list"

definition image_open :: "io \<Rightarrow> string \<Rightarrow> (error + image) \<times> io" where
  "image_open w fpath =
     ((case files w fpath of None \<Rightarrow> Inl DecodeError | Some img \<Rightarrow> Inr img),
      w\<lparr>opened := opened w @ [fpath]\<rparr>)"

section \<open>Paths\<close>

text \<open>\<open>os.path.basename\<close> and \<open>os.path.dirname\<close> (POSIX flavour).\<close>

definition sep_end :: "string \<Rightarrow> nat" where
  "sep_end p = length p - length (takeWhile (\<lambda>c. c \<noteq> CHR ''/'') (rev p))"

definition basename :: "string \<Rightarrow> string" where
  "basename p = drop (sep_end p) p"

definition dirname :: "string \<Rightarrow> string" where
  "dirname p =
     (let head = take (sep_end p) p
      in if head \<noteq> [] \<and> head \<noteq> replicate (length head) (CHR ''/'')
         then rev (dropWhile (\<lambda>c. c = CHR ''/'') (rev head))
         else head)"

section \<open>Array operations of the load pipeline\<close>

text \<open>\<open>np.stack([data, data, data], axis=2)\<close> of a two-dimensional array.\<close>

definition stack3 :: "'a ndarray \<Rightarrow> 'a ndarray" where
  "stack3 d = \<lparr>shape = shape d @ [3], elems = concat (map (\<lambda>v. [v, v, v]) (elems d))\<rparr>"

text \<open>
  The axis table \<open>s2d = {'h': 0, 'w': 1, 'c': 2}\<close>, looked up at the first three
  characters of the shape string: a short string raises an index error, an unknown
  character a key error.
\<close>

definition s2d :: "char \<Rightarrow> error + nat" where
  "s2d c = (if c = CHR ''h'' then Inr 0 else if c = CHR ''w'' then Inr 1
            else if c = CHR ''c'' then Inr 2 else Inl KeyError)"

definition axis_at :: "string \<Rightarrow> nat \<Rightarrow> error + nat" where
  "axis_at s k = (if k < length s then s2d (s ! k) else Inl IndexError)"

definition axes_of :: "string \<Rightarrow> error + nat \<times> nat \<times> nat" where
  "axes_of s =
     ebind (axis_at s 0) (\<lambda>a0. ebind (axis_at s 1) (\<lambda>a1. ebind (axis_at s 2) (\<lambda>a2.
       Inr (a0, a1, a2))))"

text \<open>
  \<open>data.transpose((a0, a1, a2))\<close> of a three-dimensional array: axis \<open>m\<close> of the result
  is axis \<open>a\<^sub>m\<close> of the source, so that the entry at \<open>(i0, i1, i2)\<close> of the result is
  the entry of the source whose index along axis \<open>a\<^sub>m\<close> is \<open>i\<^sub>m\<close>. The axes must be a
  permutation. \<open>offset\<close> is the position of an index in the row-major buffer.
\<close>

definition offset :: "nat list \<Rightarrow> nat \<times> nat \<times> nat \<Rightarrow> nat" where
  "offset sh ix = (case ix of (i0, i1, i2) \<Rightarrow> (i0 * (sh ! 1) + i1) * (sh ! 2) + i2)"

definition src_index :: "nat \<times> nat \<times> nat \<Rightarrow> nat \<times> nat \<times> nat \<Rightarrow> nat \<times> nat \<times> nat" where
  "src_index axes ix =
     (case axes of (a0, a1, a2) \<Rightarrow> case ix of (i0, i1, i2) \<Rightarrow>
        (let j = [0, 0, 0][a0 := i0, a1 := i1, a2 := i2] in (j ! 0, j ! 1, j ! 2)))"

definition transpose_axes :: "'a ndarray \<Rightarrow> nat \<times> nat \<times> nat \<Rightarrow> error + 'a ndarray" where
  "transpose_axes d axes =
     (case axes of (a0, a1, a2) \<Rightarrow>
        if length (shape d) \<noteq> 3 \<or> \<not> distinct [a0, a1, a2] then Inl ValueError
        else
          (let n0 = shape d ! a0; n1 = shape d ! a1; n2 = shape d ! a2
           in Inr \<lparr>shape = [n0, n1, n2],
                   elems = map (\<lambda>n. elems d ! offset (shape d)
                                  (src_index axes (n div (n1 * n2), (n div n2) mod n1, n mod n2)))
                             [0..<n0 * n1 * n2]\<rparr>))"

text \<open>\<open>(data / 255.) * scale\<close>, element by element.\<close>

definition scaling :: "'f arith \<Rightarrow> 'f \<Rightarrow> nat ndarray \<Rightarrow> 'f ndarray" where
  "scaling A sc d =
     \<lparr>shape = shape d,
      elems = map (\<lambda>p. fmul A (fdiv A (to_float A p) (to_float A 255)) sc) (elems d)\<rparr>"

text \<open>
  \<open>data[k] -= m[k]\<close>: the subtraction on the sub-array at position \<open>k\<close> of the first
  axis. It raises an index error when the first axis or the list \<open>m\<close> has no position
  \<open>k\<close>. \<open>slice d k\<close> is the buffer of that sub-array.
\<close>

definition slice :: "'a ndarray \<Rightarrow> nat \<Rightarrow> 'a list" where
  "slice d k = take (prod_list (tl (shape d))) (drop (k * prod_list (tl (shape d))) (elems d))"

definition sub_at :: "'f arith \<Rightarrow> 'f list \<Rightarrow> nat \<Rightarrow> 'f ndarray \<Rightarrow> error + 'f ndarray" where
  "sub_at A m k d =
     (if shape d = [] \<or> hd (shape d) \<le> k \<or> length m \<le> k then Inl IndexError
      else Inr (d\<lparr>elems := take (k * prod_list (tl (shape d))) (elems d)
                            @ map (\<lambda>x. fsub A x (m ! k)) (slice d k)
                            @ drop (Suc k * prod_list (tl (shape d))) (elems d)\<rparr>))"

definition centering :: "'f arith \<Rightarrow> 'f list option \<Rightarrow> 'f ndarray \<Rightarrow> error + 'f ndarray" where
  "centering A rm d =
     (case rm of
        None \<Rightarrow> Inr d
      | Some m \<Rightarrow> ebind (sub_at A m 0 d) (\<lambda>d0. ebind (sub_at A m 1 d0) (\<lambda>d1. sub_at A m 2 d1)))"

text \<open>\<open>torch.Tensor(data)\<close>: a 32-bit host tensor of the same shape.\<close>

definition torch_Tensor :: "'f arith \<Rightarrow> 'f ndarray \<Rightarrow> 'f tensor" where
  "torch_Tensor A d =
     \<lparr>tshape = shape d, telems = map (to_f32 A) (elems d), tdevice = ''cpu'',
      requires_grad = False, grad_fn = None\<rparr>"

section \<open>ImageDataset\<close>

text \<open>
  The transform is a function of the caller. It is called on the array object itself, not
  on a copy, and may change it in place: it is modelled as returning its result together
  with the array it was given, as the call leaves it.
\<close>

record 'f image_dataset =
  transform :: "('f ndarray \<Rightarrow> 'f tensor \<times> 'f ndarray) option"
  shape_str :: string
  resize :: "(nat \<times> nat) option"
  scale :: 'f
  rgb_mean :: "'f list option"
  data :: "int \<rightharpoonup> 'f ndarray"
  data_path :: "string list"
  labels :: "string list"
  n_sample :: nat

text \<open>
  The stages of \<open>__load_image\<close> after the file is open. \<open>normalize\<close> is the colour
  mode normalisation up to the three-dimensional pixel array, \<open>resized\<close> the optional
  resize (with resample filter number 2), \<open>pipeline\<close> the whole of it, as a function of
  the decoded image and of the four settings it reads.
\<close>

definition normalize :: "pil \<Rightarrow> image \<Rightarrow> nat ndarray" where
  "normalize P img0 =
     (let img1 = (if mode img0 = CMYK then convert_rgb P img0 else img0);
          img2 = (if mode img1 = RGBA then paste_on_white P img1 else img1);
          d = asarray img2
      in if length (shape d) = 2 then stack3 d else d)"

definition resized :: "pil \<Rightarrow> (nat \<times> nat) option \<Rightarrow> nat ndarray \<Rightarrow> error + nat ndarray" where
  "resized P rs d =
     (case rs of
        None \<Rightarrow> Inr d
      | Some sz \<Rightarrow>
          ebind (fromarray d) (\<lambda>im. ebind (pil_resize P im sz 2) (\<lambda>im2. Inr (asarray im2))))"

definition pipeline ::
  "'f arith \<Rightarrow> pil \<Rightarrow> (nat \<times> nat) option \<Rightarrow> string \<Rightarrow> 'f \<Rightarrow> 'f list option \<Rightarrow> image
     \<Rightarrow> error + 'f ndarray" where
  "pipeline A P rs sh sc rm img =
     ebind (resized P rs (normalize P img)) (\<lambda>d1.
     ebind (axes_of sh) (\<lambda>axes.
     ebind (transpose_axes d1 axes) (\<lambda>d2.
     centering A rm (scaling A sc d2))))"

definition load_image ::
  "'f arith \<Rightarrow> pil \<Rightarrow> 'f image_dataset \<Rightarrow> io \<Rightarrow> string \<Rightarrow> (error + 'f ndarray) \<times> io" where
  "load_image A P self w fpath =
     (case image_open w fpath of
        (Inl e, w') \<Rightarrow> (Inl e, w')
      | (Inr img, w') \<Rightarrow>
          (pipeline A P (resize self) (shape_str self) (scale self) (rgb_mean self) img, w'))"

text \<open>
  The arguments of the constructor. \<open>preload_limit\<close> is in GiB; \<open>None\<close> is the default
  \<open>np.inf\<close>. The product \<open>preload_limit * 1024 ** 3\<close> scales a float by a power of two
  and the comparison of the integer byte count with it is exact, so both are modelled
  over the rationals.
\<close>

record 'f dataset_args =
  arg_images :: "string list"
  arg_labels :: "string list option"
  arg_label_dirname :: bool
  arg_resize :: "(nat \<times> nat) option"
  arg_shape :: string
  arg_transform :: "('f ndarray \<Rightarrow> 'f tensor \<times> 'f ndarray) option"
  arg_scale :: 'f
  arg_rgb_mean :: "'f list option"
  arg_preload :: bool
  arg_preload_limit :: "rat option"

definition over_limit :: "nat \<Rightarrow> rat option \<Rightarrow> bool" where
  "over_limit n preload_limit =
     (case preload_limit of None \<Rightarrow> False | Some gib \<Rightarrow> of_nat n > gib * 1024 ^ 3)"

text \<open>\<open>data.size * data.itemsize\<close> of a 64-bit float array.\<close>

definition nbytes :: "'f ndarray \<Rightarrow> nat" where
  "nbytes d = prod_list (shape d) * 8"

text \<open>
  The loop of \<open>__init__\<close> over \<open>enumerate(images)\<close>, with the variables it updates:
  the object under construction (for its cache \<open>data\<close>), \<open>preload_size\<close>,
  \<open>image_labels\<close> and the flag \<open>preload\<close>.
\<close>

record 'f loop_state =
  self :: "'f image_dataset"
  preload_size :: nat
  image_labels :: "string list"
  preload :: bool

fun init_loop ::
  "'f arith \<Rightarrow> pil \<Rightarrow> bool \<Rightarrow> rat option \<Rightarrow> nat \<Rightarrow> string list \<Rightarrow> 'f loop_state \<Rightarrow> io
     \<Rightarrow> (error + 'f loop_state) \<times> io" where
  "init_loop A P label_dirname preload_limit i [] st w = (Inr st, w)"
| "init_loop A P label_dirname preload_limit i (imf # rest) st w =
     (let st1 = st\<lparr>image_labels := image_labels st
                      @ [if label_dirname then basename (dirname imf) else basename imf]\<rparr>
      in if preload st1 then
           (case load_image A P (self st1) w imf of
              (Inl e, w') \<Rightarrow> (Inl e, w')
            | (Inr d, w') \<Rightarrow>
                (let data_size = nbytes d
                 in if over_limit (preload_size st1 + data_size) preload_limit
                    then init_loop A P label_dirname preload_limit (Suc i) rest
                           (st1\<lparr>preload := False\<rparr>) w'
                    else init_loop A P label_dirname preload_limit (Suc i) rest
                           (st1\<lparr>self := (self st1)\<lparr>data := (data (self st1))(int i \<mapsto> d)\<rparr>,
                                preload_size := preload_size st1 + data_size\<rparr>) w'))
         else init_loop A P label_dirname preload_limit (Suc i) rest st1 w)"

definition dataset_init ::
  "'f arith \<Rightarrow> pil \<Rightarrow> 'f dataset_args \<Rightarrow> io \<Rightarrow> (error + 'f image_dataset) \<times> io" where
  "dataset_init A P args w =
     (let self0 = \<lparr>transform = arg_transform args, shape_str = arg_shape args,
                   resize = arg_resize args, scale = arg_scale args,
                   rgb_mean = arg_rgb_mean args, data = Map.empty,
                   data_path = [], labels = [], n_sample = 0\<rparr>
      in case init_loop A P (arg_label_dirname args) (arg_preload_limit args) 0 (arg_images args)
                \<lparr>self = self0, preload_size = 0, image_labels = [], preload = arg_preload args\<rparr> w of
           (Inl e, w') \<Rightarrow> (Inl e, w')
         | (Inr st, w') \<Rightarrow>
             (Inr ((self st)\<lparr>data_path := arg_images args,
                              labels := (case arg_labels args of Some ls \<Rightarrow> ls
                                         | None \<Rightarrow> image_labels st),
                              n_sample := length (arg_images args)\<rparr>), w'))"

definition dataset_len :: "'f image_dataset \<Rightarrow> nat" where
  "dataset_len ds = n_sample ds"

text \<open>
  \<open>__getitem__\<close>, in two steps: \<open>fetch\<close> is the raw array, from the cache or loaded
  from the file; \<open>getitem\<close> applies the transform and reads the label. It returns the
  result together with the dataset and the file system as the call leaves them. A cached
  array is handed to the transform as the object the cache holds, so that the cache holds
  afterwards what the transform left of it; an array loaded for this access is held by
  nothing else. \<open>torch.Tensor(data)\<close> copies and leaves the array as it is.
\<close>

definition fetch ::
  "'f arith \<Rightarrow> pil \<Rightarrow> 'f image_dataset \<Rightarrow> io \<Rightarrow> int \<Rightarrow> (error + 'f ndarray) \<times> io" where
  "fetch A P ds w idx =
     (case data ds idx of
        Some d \<Rightarrow> (Inr d, w)
      | None \<Rightarrow>
          (case py_index (data_path ds) idx of
             Inl e \<Rightarrow> (Inl e, w)
           | Inr fpath \<Rightarrow> load_image A P ds w fpath))"

definition getitem ::
  "'f arith \<Rightarrow> pil \<Rightarrow> 'f image_dataset \<Rightarrow> io \<Rightarrow> int
     \<Rightarrow> (error + 'f tensor \<times> string) \<times> 'f image_dataset \<times> io" where
  "getitem A P ds w idx =
     (case fetch A P ds w idx of
        (Inl e, w') \<Rightarrow> (Inl e, ds, w')
      | (Inr d, w') \<Rightarrow>
          (let (t, d') = (case transform ds of Some f \<Rightarrow> f d | None \<Rightarrow> (torch_Tensor A d, d));
               ds' = (case data ds idx of
                        Some c \<Rightarrow> ds\<lparr>data := (data ds)(idx \<mapsto> d')\<rparr>
                      | None \<Rightarrow> ds)
           in case py_index (labels ds') idx of
                Inl e \<Rightarrow> (Inl e, ds', w')
              | Inr label \<Rightarrow> (Inr (t, label), ds', w')))"

section \<open>Derived notions used in the statements\<close>

text \<open>
  The label \<open>__init__\<close> derives from a path; the result of the load pipeline on a path,
  as a function of the files; the bytes held by the cache of a dataset; and the
  invariant of the preload loop over the paths seen so far: the cached indices are the
  first \<open>k\<close> of them, \<open>preload_size\<close> is the size of the cache and within the limit,
  every cached array is what the pipeline gives for its path, and once preloading has
  been switched off, path \<open>k\<close> is the one whose array went over the limit.
\<close>

definition label_of :: "bool \<Rightarrow> string \<Rightarrow> string" where
  "label_of label_dirname imf = (if label_dirname then basename (dirname imf) else basename imf)"





section \<open>A two-layer network used in the examples\<close>

definition out_a :: "nat tensor" where
  "out_a = \<lparr>tshape = [1], telems = [10], tdevice = ''cuda:0'', requires_grad = True, grad_fn = Some 1\<rparr>"

definition out_b :: "nat tensor" where
  "out_b = \<lparr>tshape = [1], telems = [20], tdevice = ''cuda:0'', requires_grad = True, grad_fn = Some 2\<rparr>"

definition two_layer_net :: "nat encoder" where
  "two_layer_net =
     \<lparr>net = (\<lambda>t. ([(0, out_a), (1, out_b)], None)),
      parse_layer_name = [''a'' \<mapsto> 0, ''b'' \<mapsto> 1],
      fwd_hooks = [], enc_device = ''cpu'', calls = []\<rparr>"

definition sample_input :: "nat tensor_t" where
  "sample_input = Tensor \<lparr>tshape = [1, 1], telems = [5], tdevice = ''cuda:0'',
                          requires_grad = False, grad_fn = None\<rparr>"

definition dup_fe :: "nat feature_extractor" where
  "dup_fe = projr (fe_init two_layer_net [''a'', ''b'', ''a''] None ''cuda:0'' False)"

definition live_fe :: "nat feature_extractor" where
  "live_fe = projr (fe_init two_layer_net [''a'', ''b''] None ''cuda:0'' False)"

section \<open>A small image collection used in the examples\<close>

text \<open>
  Exact rational arithmetic stands for the float operations, and a plain
  nearest-neighbour library for the pixel computations of the imaging library.
\<close>

definition rat_arith :: "rat arith" where
  "rat_arith = \<lparr>to_float = of_nat, fdiv = (\<lambda>x y. x / y), fmul = (\<lambda>x y. x * y),
                 fsub = (\<lambda>x y. x - y), to_f32 = (\<lambda>x. x)\<rparr>"

definition nearest_pil :: pil where
  "nearest_pil =
     \<lparr>cmyk_to_rgb = (\<lambda>img. map (\<lambda>n. 255 - min 255 (pixels img ! (n div 3 * 4 + n mod 3)
                                                       + pixels img ! (n div 3 * 4 + 3)))
                              [0..<height img * width img * 3]),
      blend_on_white = (\<lambda>img. map (\<lambda>n. (pixels img ! (n div 3 * 4 + n mod 3)
                                           * pixels img ! (n div 3 * 4 + 3)
                                         + 255 * (255 - pixels img ! (n div 3 * 4 + 3))) div 255)
                                 [0..<height img * width img * 3]),
      resample_px = (\<lambda>img sz flt.
         map (\<lambda>n. pixels img !
                    ((((n div (fst sz * bands (mode img))) * height img) div snd sz * width img
                       + (((n div bands (mode img)) mod fst sz) * width img) div fst sz)
                      * bands (mode img) + n mod bands (mode img)))
             [0..<snd sz * fst sz * bands (mode img)])\<rparr>"

definition tom :: image where
  "tom = \<lparr>mode = RGB, width = 1, height = 1, pixels = [255, 0, 51]\<rparr>"

definition rex :: image where
  "rex = \<lparr>mode = L, width = 1, height = 1, pixels = [102]\<rparr>"

definition disk :: io where
  "disk = \<lparr>files = [''cats/tom.png'' \<mapsto> tom, ''dogs/rex.png'' \<mapsto> rex, ''dogs/fido.png'' \<mapsto> rex],
           opened = []\<rparr>"

text \<open>
  Three images of 24 bytes each once decoded, preloaded under a budget of 30 bytes
  (\<open>30 / 1024 ^ 3\<close> GiB), labelled by directory.
\<close>

definition pets_args :: "rat dataset_args" where
  "pets_args =
     \<lparr>arg_images = [''cats/tom.png'', ''dogs/rex.png'', ''dogs/fido.png''],
      arg_labels = None, arg_label_dirname = True, arg_resize = None, arg_shape = ''chw'',
      arg_transform = None, arg_scale = 1, arg_rgb_mean = None, arg_preload = True,
      arg_preload_limit = Some (30 / 1024 ^ 3)\<rparr>"

definition pets :: "rat image_dataset" where
  "pets = projr (fst (dataset_init rat_arith nearest_pil pets_args disk))"


text \<open>A row of two RGB pixels, alone on a shelf, for the centering examples.\<close>

definition duo :: image where
  "duo = \<lparr>mode = RGB, width = 2, height = 1, pixels = [255, 0, 51, 0, 102, 204]\<rparr>"

definition shelf :: io where
  "shelf = \<lparr>files = [''duo.png'' \<mapsto> duo], opened = []\<rparr>"

text \<open>
  A transform that clears the array it is given in place (\<open>data *= 0\<close>) after taking
  its tensor, and the collection above built with it.
\<close>

definition take_and_clear :: "rat ndarray \<Rightarrow> rat tensor \<times> rat ndarray" where
  "take_and_clear d = (torch_Tensor rat_arith d, d\<lparr>elems := map (\<lambda>x. 0) (elems d)\<rparr>)"

definition cleared_pets :: "rat image_dataset" where
  "cleared_pets =
     projr (fst (dataset_init rat_arith nearest_pil
                   (pets_args\<lparr>arg_transform := Some take_and_clear\<rparr>) disk))"

text \<open>A transform that only takes the tensor of the array, and the collection built with it.\<close>

definition take_only :: "rat ndarray \<Rightarrow> rat tensor \<times> rat ndarray" where
  "take_only d = (torch_Tensor rat_arith d, d)"

definition kept_pets :: "rat image_dataset" where
  "kept_pets =
     projr (fst (dataset_init rat_arith nearest_pil
                   (pets_args\<lparr>arg_transform := Some take_only\<rparr>) disk))"
section \<open>Properties of the feature extractor\<close>

lemma forward_calls: "calls (fst (snd (forward enc h xt))) = calls enc @ [xt]"
  by (simp add: forward_def split: prod.splits)

lemma run_state:
  "snd (run fe x) =
     fe\<lparr>encoder := fst (snd (forward (encoder fe) (clear (extractor fe)) (prepare (device fe) x))),
        extractor := snd (snd (forward (encoder fe) (clear (extractor fe)) (prepare (device fe) x)))\<rparr>"
  by (simp add: run_def Let_def split: prod.splits option.splits sum.splits)

lemma fold_fire_outputs:
  "outputs (fold (\<lambda>reg h'. if reg = m then handle_call h' out else h') hooks h)
     = outputs h @ map (\<lambda>_. clone (detach out)) (filter (\<lambda>reg. reg = m) hooks)"
  by (induction hooks arbitrary: h) (auto simp: handle_call_def)

lemma fire_outputs:
  "outputs (fire hooks h ev)
     = outputs h @ map (\<lambda>_. clone (detach (snd ev))) (filter (\<lambda>reg. reg = fst ev) hooks)"
  by (simp add: fire_def fold_fire_outputs)

lemma pass_outputs:
  "outputs (fold (\<lambda>ev h'. fire hooks h' ev) trace h)
     = outputs h @ concat (map (\<lambda>ev. map (\<lambda>_. clone (detach (snd ev)))
                                    (filter (\<lambda>reg. reg = fst ev) hooks)) trace)"
  by (induction trace arbitrary: h) (auto simp: fire_outputs)

lemma clear_is_init: "clear (h :: 'e handle) = handle_init"
  by (simp add: clear_def handle_init_def)

lemma collect_ok:
  "i + length ls \<le> length outs \<Longrightarrow> \<exists>m. collect outs i ls acc = Inr m"
  by (induction ls arbitrary: i acc) auto

lemma collect_short:
  "i \<le> length outs \<Longrightarrow> length outs < i + length ls \<Longrightarrow> collect outs i ls acc = Inl IndexError"
  by (induction ls arbitrary: i acc) auto

lemma collect_dom:
  "collect outs i ls acc = Inr m \<Longrightarrow> dom m = dom acc \<union> set ls"
  by (induction ls arbitrary: i acc) (auto split: if_splits)

lemma collect_keep:
  "collect outs i ls acc = Inr m \<Longrightarrow> k \<notin> set ls \<Longrightarrow> m k = acc k"
  by (induction ls arbitrary: i acc) (auto split: if_splits)

lemma collect_last:
  "collect outs i ls acc = Inr m \<Longrightarrow> j < length ls
     \<Longrightarrow> \<forall>k. j < k \<and> k < length ls \<longrightarrow> ls ! k \<noteq> ls ! j
     \<Longrightarrow> m (ls ! j) = Some (outs ! (i + j))"
proof (induction ls arbitrary: i acc j)
  case Nil
  then show ?case by simp
next
  case (Cons l rest)
  from Cons.prems(1) have lt: "i < length outs"
    and rec: "collect outs (Suc i) rest (acc(l \<mapsto> outs ! i)) = Inr m"
    by (auto split: if_splits)
  show ?case
  proof (cases j)
    case 0
    have "l \<notin> set rest"
    proof
      assume "l \<in> set rest"
      then obtain k where "k < length rest" "rest ! k = l" by (auto simp: in_set_conv_nth)
      with Cons.prems(3) 0 show False by (auto dest: spec [where x = "Suc k"])
    qed
    with collect_keep [OF rec] 0 show ?thesis by simp
  next
    case (Suc j')
    have "\<forall>k. j' < k \<and> k < length rest \<longrightarrow> rest ! k \<noteq> rest ! j'"
    proof (intro allI impI)
      fix k assume "j' < k \<and> k < length rest"
      with Cons.prems(3) Suc show "rest ! k \<noteq> rest ! j'"
        by (auto dest: spec [where x = "Suc k"])
    qed
    with Cons.IH [OF rec, of j'] Cons.prems(2) Suc show ?thesis by simp
  qed
qed

lemma collect_ran:
  "collect outs i ls acc = Inr m \<Longrightarrow> m k = Some v \<Longrightarrow> acc k = Some v \<or> v \<in> set outs"
proof (induction ls arbitrary: i acc)
  case Nil
  then show ?case by simp
next
  case (Cons l rest)
  from Cons.prems(1) have lt: "i < length outs"
    and rec: "collect outs (Suc i) rest (acc(l \<mapsto> outs ! i)) = Inr m"
    by (auto split: if_splits)
  from Cons.IH [OF rec Cons.prems(2)] lt show ?case
    by (auto split: if_splits)
qed

lemma run_fst:
  "net (encoder fe) (prepare (device fe) x) = (trace, failure) \<Longrightarrow>
   fst (run fe x) =
     (case failure of
        Some e \<Rightarrow> Inl e
      | None \<Rightarrow>
          (case collect (outputs (extractor (snd (run fe x)))) 0 (layers fe) Map.empty of
             Inl e \<Rightarrow> Inl e
           | Inr features \<Rightarrow>
               Inr (if detach_flag fe then to_host features else as_tensors features)))"
  by (simp add: run_def forward_def Let_def split: option.splits sum.splits)

lemma run_buffer:
  "net (encoder fe) (prepare (device fe) x) = (trace, failure) \<Longrightarrow>
   outputs (extractor (snd (run fe x)))
     = outputs (fold (\<lambda>ev h'. fire (fwd_hooks (encoder fe)) h' ev) trace handle_init)"
  by (simp add: run_state forward_def clear_is_init)

text \<open>
  Claim C1, as the code has it. \<open>run\<close> empties the buffer, so that after the call it
  holds the hook outputs of this pass alone, and calls \<open>forward\<close> exactly once. When
  the pass does not fail and has buffered at least as many outputs as there are requested
  names, \<open>run\<close> returns a mapping whose keys are exactly the requested names; the value
  of a name is the buffered output at the position of the last occurrence of that name in
  the requested sequence (so the \<open>i\<close>-th buffered output for the \<open>i\<close>-th name when the
  names are pairwise distinct), turned into a host array when \<open>detach\<close> is set. When fewer
  outputs were buffered, \<open>run\<close> raises an index error; a failure of the pass is passed on.
\<close>

theorem run_feature_map:
  assumes pass: "net (encoder fe) (prepare (device fe) x) = (trace, failure)"
  shows "outputs (extractor (snd (run fe x)))
           = outputs (fold (\<lambda>ev h'. fire (fwd_hooks (encoder fe)) h' ev) trace handle_init)
       \<and> calls (encoder (snd (run fe x))) = calls (encoder fe) @ [prepare (device fe) x]
       \<and> (failure = None \<and> length (layers fe) \<le> length (outputs (extractor (snd (run fe x))))
            \<longrightarrow> (\<exists>feats. fst (run fe x) = Inr feats \<and> dom feats = set (layers fe)
                  \<and> (\<forall>i < length (layers fe).
                        (\<forall>k. i < k \<and> k < length (layers fe) \<longrightarrow> layers fe ! k \<noteq> layers fe ! i)
                        \<longrightarrow> feats (layers fe ! i)
                              = Some (if detach_flag fe
                                      then Array (numpy (detach (cpu (outputs (extractor (snd (run fe x))) ! i))))
                                      else Tensor (outputs (extractor (snd (run fe x))) ! i)))))
       \<and> (failure = None \<and> length (outputs (extractor (snd (run fe x)))) < length (layers fe)
            \<longrightarrow> fst (run fe x) = Inl IndexError)
       \<and> (\<forall>e. failure = Some e \<longrightarrow> fst (run fe x) = Inl e)"
proof -
  let ?buf = "outputs (extractor (snd (run fe x)))"
  have c1: "?buf = outputs (fold (\<lambda>ev h'. fire (fwd_hooks (encoder fe)) h' ev) trace handle_init)"
    by (rule run_buffer [OF pass])
  have c2: "calls (encoder (snd (run fe x))) = calls (encoder fe) @ [prepare (device fe) x]"
    by (simp add: run_state forward_calls)
  have c3: "\<exists>feats. fst (run fe x) = Inr feats \<and> dom feats = set (layers fe)
                  \<and> (\<forall>i < length (layers fe).
                        (\<forall>k. i < k \<and> k < length (layers fe) \<longrightarrow> layers fe ! k \<noteq> layers fe ! i)
                        \<longrightarrow> feats (layers fe ! i)
                              = Some (if detach_flag fe
                                      then Array (numpy (detach (cpu (?buf ! i))))
                                      else Tensor (?buf ! i)))"
    if ok: "failure = None" and len: "length (layers fe) \<le> length ?buf"
  proof -
    from len obtain m where m: "collect ?buf 0 (layers fe) Map.empty = Inr m"
      using collect_ok [of 0 "layers fe" ?buf Map.empty] by auto
    let ?feats = "if detach_flag fe then to_host m else as_tensors m"
    have r: "fst (run fe x) = Inr ?feats"
      using run_fst [OF pass] ok m by simp
    have d: "dom ?feats = set (layers fe)"
      using collect_dom [OF m] by (auto simp: to_host_def as_tensors_def dom_def)
    have v: "?feats (layers fe ! i)
               = Some (if detach_flag fe then Array (numpy (detach (cpu (?buf ! i))))
                       else Tensor (?buf ! i))"
      if "i < length (layers fe)"
        and "\<forall>k. i < k \<and> k < length (layers fe) \<longrightarrow> layers fe ! k \<noteq> layers fe ! i" for i
      using collect_last [OF m that] by (simp add: to_host_def as_tensors_def)
    from r d v show ?thesis by blast
  qed
  have c4: "fst (run fe x) = Inl IndexError"
    if ok: "failure = None" and len: "length ?buf < length (layers fe)"
    using run_fst [OF pass] ok collect_short [of 0 ?buf "layers fe" Map.empty] len by simp
  have c5: "fst (run fe x) = Inl e" if "failure = Some e" for e
    using run_fst [OF pass] that by simp
  from c1 c2 c3 c4 c5 show ?thesis by blast
qed

lemma live_fe_eq:
  "fe_init two_layer_net [''a'', ''b''] None ''cuda:0'' False
     = Inr \<lparr>encoder = two_layer_net\<lparr>fwd_hooks := [0, 1], enc_device := ''cuda:0''\<rparr>,
            layers = [''a'', ''b''], layer_map = None, detach_flag = False,
            device = ''cuda:0'', extractor = handle_init\<rparr>"
  by (simp add: fe_init_def two_layer_net_def to_device_def register_forward_hook_def)

lemma dup_fe_eq:
  "fe_init two_layer_net [''a'', ''b'', ''a''] None ''cuda:0'' False
     = Inr \<lparr>encoder = two_layer_net\<lparr>fwd_hooks := [0, 1, 0], enc_device := ''cuda:0''\<rparr>,
            layers = [''a'', ''b'', ''a''], layer_map = None, detach_flag = False,
            device = ''cuda:0'', extractor = handle_init\<rparr>"
  by (simp add: fe_init_def two_layer_net_def to_device_def register_forward_hook_def)

lemma live_fe_val:
  "live_fe = \<lparr>encoder = two_layer_net\<lparr>fwd_hooks := [0, 1], enc_device := ''cuda:0''\<rparr>,
            layers = [''a'', ''b''], layer_map = None, detach_flag = False,
            device = ''cuda:0'', extractor = handle_init\<rparr>"
  by (simp add: live_fe_def live_fe_eq)

lemma dup_fe_val:
  "dup_fe = \<lparr>encoder = two_layer_net\<lparr>fwd_hooks := [0, 1, 0], enc_device := ''cuda:0''\<rparr>,
            layers = [''a'', ''b'', ''a''], layer_map = None, detach_flag = False,
            device = ''cuda:0'', extractor = handle_init\<rparr>"
  by (simp add: dup_fe_def dup_fe_eq)

lemma live_run_buffer:
  "outputs (extractor (snd (run live_fe sample_input))) = [detach out_a, detach out_b]"
  by (simp add: live_fe_val run_state forward_def two_layer_net_def fire_def
      handle_call_def clear_def clone_def out_a_def out_b_def)

lemma dup_run_buffer:
  "outputs (extractor (snd (run dup_fe sample_input))) = [detach out_a, detach out_a, detach out_b]"
  by (simp add: dup_fe_val run_state forward_def two_layer_net_def fire_def
      handle_call_def clear_def clone_def out_a_def out_b_def)


theorem run_feature_map_witness:
  "\<exists>feats. fst (run live_fe sample_input) = Inr feats \<and> dom feats = {''a'', ''b''}
      \<and> feats ''a'' = Some (Tensor (detach out_a)) \<and> feats ''b'' = Some (Tensor (detach out_b))"
proof -
  have pass: "net (encoder live_fe) (prepare (device live_fe) sample_input) = ([(0, out_a), (1, out_b)], None)"
    by (simp add: live_fe_val two_layer_net_def out_a_def out_b_def sample_input_def prepare_def)
  have ls: "layers live_fe = [''a'', ''b'']" and nd: "\<not> detach_flag live_fe"
    by (simp_all add: live_fe_val)
  have len: "(None :: error option) = None \<and> length (layers live_fe) \<le> length (outputs (extractor (snd (run live_fe sample_input))))"
    by (simp add: ls live_run_buffer)
  from run_feature_map [OF pass, THEN conjunct2, THEN conjunct2, THEN conjunct1, rule_format, OF len]
  obtain feats where f: "fst (run live_fe sample_input) = Inr feats" "dom feats = set (layers live_fe)"
    and v: "\<And>i. i < length (layers live_fe) \<Longrightarrow>
              (\<forall>k. i < k \<and> k < length (layers live_fe) \<longrightarrow> layers live_fe ! k \<noteq> layers live_fe ! i)
              \<Longrightarrow> feats (layers live_fe ! i) =
                  Some (if detach_flag live_fe
                        then Array (numpy (detach (cpu (outputs (extractor (snd (run live_fe sample_input))) ! i))))
                        else Tensor (outputs (extractor (snd (run live_fe sample_input))) ! i))"
    by blast
  have d0: "\<forall>k. 0 < k \<and> k < length (layers live_fe) \<longrightarrow> layers live_fe ! k \<noteq> layers live_fe ! 0"
    by (auto simp: ls less_Suc_eq)
  have d1: "\<forall>k. 1 < k \<and> k < length (layers live_fe) \<longrightarrow> layers live_fe ! k \<noteq> layers live_fe ! 1"
    by (auto simp: ls)
  have a: "feats ''a'' = Some (Tensor (detach out_a))"
    using v [OF _ d0] by (simp add: ls nd live_run_buffer)
  have b: "feats ''b'' = Some (Tensor (detach out_b))"
    using v [OF _ d1] by (simp add: ls nd live_run_buffer)
  from f a b ls show ?thesis by auto
qed

text \<open>
  The positional reading of C1 fails on a repeated name: with the names \<open>a, b, a\<close> the
  handle is registered twice on layer \<open>a\<close>, the buffer holds the output of \<open>a\<close> twice and
  then that of \<open>b\<close>, and the value returned for the first requested name is the third
  buffered entry (the output of \<open>b\<close>), not the first.
\<close>

theorem run_positional_counterexample:
  "fe_init two_layer_net [''a'', ''b'', ''a''] None ''cuda:0'' False = Inr dup_fe
   \<and> layers dup_fe ! 0 = ''a''
   \<and> outputs (extractor (snd (run dup_fe sample_input))) ! 0 = detach out_a
   \<and> projr (fst (run dup_fe sample_input)) (layers dup_fe ! 0) = Some (Tensor (detach out_b))
   \<and> detach out_a \<noteq> detach out_b"
proof -
  have pass: "net (encoder dup_fe) (prepare (device dup_fe) sample_input) = ([(0, out_a), (1, out_b)], None)"
    by (simp add: dup_fe_val two_layer_net_def out_a_def out_b_def sample_input_def prepare_def)
  have r: "fst (run dup_fe sample_input)
             = Inr (as_tensors [''a'' \<mapsto> detach out_a, ''b'' \<mapsto> detach out_a, ''a'' \<mapsto> detach out_b])"
    using run_fst [OF pass] dup_run_buffer by (simp add: dup_fe_val)
  show ?thesis
    by (simp add: r dup_run_buffer as_tensors_def) (simp add: dup_fe_val dup_fe_eq detach_def out_a_def out_b_def)
qed

lemma live_run_result:
  "fst (run live_fe sample_input) = Inr (as_tensors [''a'' \<mapsto> detach out_a, ''b'' \<mapsto> detach out_b])"
proof -
  have pass: "net (encoder live_fe) (prepare (device live_fe) sample_input) = ([(0, out_a), (1, out_b)], None)"
    by (simp add: live_fe_val two_layer_net_def out_a_def out_b_def sample_input_def prepare_def)
  show ?thesis
    using run_fst [OF pass] live_run_buffer by (simp add: live_fe_val)
qed

text \<open>
  Claim C2, as the code has it. With \<open>detach=False\<close> every value of the returned mapping
  is a tensor (not a host array): the copy that the hook made of the output of a hooked
  layer that ran in this pass. It has the device, shape and data of that output, but the
  hook made it with \<open>detach().clone()\<close>: it has no link to the computation graph.
\<close>

theorem run_no_detach_returns_hook_copies:
  assumes nd: "\<not> detach_flag fe"
    and r: "fst (run fe x) = Inr feats"
    and k: "feats k = Some v"
  shows "\<exists>t layer out. v = Tensor t
           \<and> (layer, out) \<in> set (fst (net (encoder fe) (prepare (device fe) x)))
           \<and> layer \<in> set (fwd_hooks (encoder fe))
           \<and> tdevice t = tdevice out \<and> tshape t = tshape out \<and> telems t = telems out
           \<and> grad_fn t = None \<and> \<not> requires_grad t"
proof -
  obtain trace failure where pass: "net (encoder fe) (prepare (device fe) x) = (trace, failure)"
    by (cases "net (encoder fe) (prepare (device fe) x)")
  let ?buf = "outputs (extractor (snd (run fe x)))"
  from run_fst [OF pass] r nd obtain m where m: "collect ?buf 0 (layers fe) Map.empty = Inr m"
    and f: "feats = as_tensors m"
    by (auto split: option.splits sum.splits)
  from k f obtain t where t: "m k = Some t" "v = Tensor t"
    by (auto simp: as_tensors_def)
  from collect_ran [OF m t(1)] have "t \<in> set ?buf" by simp
  then have "t \<in> set (concat (map (\<lambda>ev. map (\<lambda>_. clone (detach (snd ev)))
                                    (filter (\<lambda>reg. reg = fst ev) (fwd_hooks (encoder fe)))) trace))"
    using run_buffer [OF pass] by (simp add: pass_outputs handle_init_def)
  then obtain ev reg where ev: "ev \<in> set trace" "reg \<in> set (fwd_hooks (encoder fe))" "reg = fst ev"
    "t = clone (detach (snd ev))"
    by auto
  have "(fst ev, snd ev) \<in> set (fst (net (encoder fe) (prepare (device fe) x)))"
    using ev(1) pass by simp
  moreover have "fst ev \<in> set (fwd_hooks (encoder fe))" using ev(2,3) by simp
  moreover have "tdevice t = tdevice (snd ev) \<and> tshape t = tshape (snd ev) \<and> telems t = telems (snd ev)
                   \<and> grad_fn t = None \<and> \<not> requires_grad t"
    using ev(4) by (simp add: clone_def detach_def)
  ultimately show ?thesis using t(2) by blast
qed

theorem run_no_detach_returns_hook_copies_witness:
  "\<not> detach_flag live_fe
   \<and> fst (run live_fe sample_input) = Inr (as_tensors [''a'' \<mapsto> detach out_a, ''b'' \<mapsto> detach out_b])
   \<and> (\<exists>t layer out. Tensor (detach out_a) = Tensor t
           \<and> (layer, out) \<in> set (fst (net (encoder live_fe) (prepare (device live_fe) sample_input)))
           \<and> layer \<in> set (fwd_hooks (encoder live_fe))
           \<and> tdevice t = tdevice out \<and> tshape t = tshape out \<and> telems t = telems out
           \<and> grad_fn t = None \<and> \<not> requires_grad t)"
proof -
  have nd: "\<not> detach_flag live_fe" by (simp add: live_fe_val)
  have k: "as_tensors [''a'' \<mapsto> detach out_a, ''b'' \<mapsto> detach out_b] ''a'' = Some (Tensor (detach out_a))"
    by (simp add: as_tensors_def)
  from run_no_detach_returns_hook_copies [OF nd live_run_result k] nd live_run_result
  show ?thesis by simp
qed

text \<open>
  C2 as stated fails: the output of layer \<open>a\<close> is linked to the graph (node 1), the
  tensor returned for \<open>a\<close> with \<open>detach=False\<close> is not.
\<close>

theorem run_no_detach_counterexample:
  "\<not> detach_flag live_fe
   \<and> fst (net (encoder live_fe) (prepare (device live_fe) sample_input)) ! 0 = (0, out_a)
   \<and> grad_fn out_a = Some 1
   \<and> projr (fst (run live_fe sample_input)) ''a'' = Some (Tensor (detach out_a))
   \<and> grad_fn (detach out_a) = None"
  by (simp add: live_run_result as_tensors_def)
     (simp add: live_fe_val two_layer_net_def out_a_def detach_def sample_input_def prepare_def)

text \<open>
  Claim C10. When the input of \<open>run\<close> is already a tensor, the forward pass is called
  on that very tensor: no leading axis is added and it is not moved to the configured
  device. Only a plain array is given a leading axis and turned into a tensor on the
  configured device.
\<close>

theorem run_tensor_passed_unchanged:
  "calls (encoder (snd (run fe (Tensor t)))) = calls (encoder fe) @ [t]
   \<and> calls (encoder (snd (run fe (Array a))))
       = calls (encoder fe) @ [torch_tensor (newaxis a) (device fe)]"
  by (simp add: run_state forward_calls prepare_def)

section \<open>Properties of the image dataset\<close>

lemma image_open_files: "files (snd (image_open w p)) = files w"
  by (simp add: image_open_def)

lemma image_open_opened: "opened (snd (image_open w p)) = opened w @ [p]"
  by (simp add: image_open_def)

lemma load_image_fst:
  "fst (load_image A P ds w p) =
     (case files w p of None \<Rightarrow> Inl DecodeError
      | Some img \<Rightarrow> pipeline A P (resize ds) (shape_str ds) (scale ds) (rgb_mean ds) img)"
  by (simp add: load_image_def image_open_def split: option.splits)

lemma load_image_snd: "snd (load_image A P ds w p) = w\<lparr>opened := opened w @ [p]\<rparr>"
  by (simp add: load_image_def image_open_def split: option.splits)

lemma fetch_fst:
  "fst (fetch A P ds w idx) =
     (case data ds idx of
        Some d \<Rightarrow> Inr d
      | None \<Rightarrow>
          (case py_index (data_path ds) idx of
             Inl e \<Rightarrow> Inl e
           | Inr p \<Rightarrow> fst (load_image A P ds w p)))"
  by (simp add: fetch_def split: option.splits sum.splits)

lemma fetch_snd:
  "snd (fetch A P ds w idx) =
     w\<lparr>opened := opened w @
          (case data ds idx of
             Some d \<Rightarrow> []
           | None \<Rightarrow> (case py_index (data_path ds) idx of Inl e \<Rightarrow> [] | Inr p \<Rightarrow> [p]))\<rparr>"
  by (simp add: fetch_def load_image_snd split: option.splits sum.splits)

lemma getitem_fst:
  "fst (getitem A P ds w idx) =
     (case fst (fetch A P ds w idx) of
        Inl e \<Rightarrow> Inl e
      | Inr d \<Rightarrow>
          (case py_index (labels ds) idx of
             Inl e \<Rightarrow> Inl e
           | Inr label \<Rightarrow>
               Inr (case transform ds of Some f \<Rightarrow> fst (f d) | None \<Rightarrow> torch_Tensor A d,
                    label)))"
  by (auto simp: getitem_def Let_def split: prod.splits sum.splits option.splits)

lemma getitem_dataset:
  "fst (snd (getitem A P ds w idx)) =
     (case data ds idx of
        None \<Rightarrow> ds
      | Some d \<Rightarrow>
          ds\<lparr>data := (data ds)(idx \<mapsto> (case transform ds of Some f \<Rightarrow> snd (f d) | None \<Rightarrow> d))\<rparr>)"
  by (simp add: getitem_def fetch_def Let_def split: prod.splits sum.splits option.splits)

lemma getitem_io: "snd (snd (getitem A P ds w idx)) = snd (fetch A P ds w idx)"
  by (simp add: getitem_def Let_def split: prod.splits sum.splits option.splits)

text \<open>
  Claim C9, as the code has it. An index access leaves the paths, the labels, the length
  and the set of cached indices as they were, and the files too. The dataset after the
  access is the dataset before it, but for one case: when the index is cached and there
  is a transform, the cache holds at that index what the transform left of the array it
  was given. So the whole state is unchanged when the transform leaves the cached array
  as it is (or is absent, or the index is not cached). A cached entry is served without
  opening a file; an entry that is not cached is never added to the cache and opens its
  file on this access (and on every later one), unless the index is out of range.
\<close>

theorem getitem_state_after_access:
  assumes acc: "getitem A P ds w idx = (res, ds', w')"
  shows "data_path ds' = data_path ds \<and> labels ds' = labels ds \<and> n_sample ds' = n_sample ds
       \<and> dom (data ds') = dom (data ds)
       \<and> ds' = (case data ds idx of
                   None \<Rightarrow> ds
                 | Some d \<Rightarrow>
                     (case transform ds of
                        None \<Rightarrow> ds
                      | Some f \<Rightarrow> ds\<lparr>data := (data ds)(idx \<mapsto> snd (f d))\<rparr>))
       \<and> ((\<forall>f d. transform ds = Some f \<longrightarrow> data ds idx = Some d \<longrightarrow> snd (f d) = d)
            \<longrightarrow> ds' = ds)
       \<and> files w' = files w
       \<and> opened w' = opened w @
            (case data ds idx of
               Some d \<Rightarrow> []
             | None \<Rightarrow> (case py_index (data_path ds) idx of Inl e \<Rightarrow> [] | Inr p \<Rightarrow> [p]))"
proof -
  from acc have ds': "ds' = fst (snd (getitem A P ds w idx))"
    and w': "w' = snd (snd (getitem A P ds w idx))" by simp_all
  have keep: "ds\<lparr>data := (data ds)(idx \<mapsto> d)\<rparr> = ds" if "data ds idx = Some d" for d
  proof -
    from that have "(data ds)(idx \<mapsto> d) = data ds" by (rule fun_upd_idem)
    then show ?thesis by simp
  qed
  have eq: "ds' = (case data ds idx of
                   None \<Rightarrow> ds
                 | Some d \<Rightarrow>
                     (case transform ds of
                        None \<Rightarrow> ds
                      | Some f \<Rightarrow> ds\<lparr>data := (data ds)(idx \<mapsto> snd (f d))\<rparr>))"
    unfolding ds' getitem_dataset by (simp add: keep split: option.splits)
  have same: "ds' = ds"
    if "\<forall>f d. transform ds = Some f \<longrightarrow> data ds idx = Some d \<longrightarrow> snd (f d) = d"
    using that unfolding eq by (auto simp: keep split: option.splits)
  have fields: "data_path ds' = data_path ds" "labels ds' = labels ds" "n_sample ds' = n_sample ds"
    unfolding eq by (simp_all split: option.splits)
  have cached: "dom (data ds') = dom (data ds)"
    unfolding eq by (auto split: option.splits)
  have io: "files w' = files w"
    "opened w' = opened w @
            (case data ds idx of
               Some d \<Rightarrow> []
             | None \<Rightarrow> (case py_index (data_path ds) idx of Inl e \<Rightarrow> [] | Inr p \<Rightarrow> [p]))"
    unfolding w' getitem_io by (simp_all add: fetch_snd)
  from fields cached eq same io show ?thesis by blast
qed

text \<open>
  Claim C7. For an index that is not cached, a second access, made on the dataset and
  the files as the first access left them, gives the same result as the first; and that
  result is determined by the file at the path and the settings \<open>resize\<close>, \<open>shape\<close>,
  \<open>scale\<close> and \<open>rgb_mean\<close> (then the transform and the label of the index).
\<close>

theorem getitem_idempotent:
  assumes "data ds idx = None"
  shows "fst (getitem A P (fst (snd (getitem A P ds w idx))) (snd (snd (getitem A P ds w idx))) idx)
           = fst (getitem A P ds w idx)
       \<and> fst (getitem A P ds w idx) =
           (case py_index (data_path ds) idx of
              Inl e \<Rightarrow> Inl e
            | Inr p \<Rightarrow>
                (case files w p of
                   None \<Rightarrow> Inl DecodeError
                 | Some img \<Rightarrow>
                     (case pipeline A P (resize ds) (shape_str ds) (scale ds) (rgb_mean ds) img of
                        Inl e \<Rightarrow> Inl e
                      | Inr d \<Rightarrow>
                          (case py_index (labels ds) idx of
                             Inl e \<Rightarrow> Inl e
                           | Inr label \<Rightarrow>
                               Inr (case transform ds of Some f \<Rightarrow> fst (f d)
                                                       | None \<Rightarrow> torch_Tensor A d,
                                    label)))))"
proof -
  have formula: "fst (getitem A P ds w' idx) =
           (case py_index (data_path ds) idx of
              Inl e \<Rightarrow> Inl e
            | Inr p \<Rightarrow>
                (case files w' p of
                   None \<Rightarrow> Inl DecodeError
                 | Some img \<Rightarrow>
                     (case pipeline A P (resize ds) (shape_str ds) (scale ds) (rgb_mean ds) img of
                        Inl e \<Rightarrow> Inl e
                      | Inr d \<Rightarrow>
                          (case py_index (labels ds) idx of
                             Inl e \<Rightarrow> Inl e
                           | Inr label \<Rightarrow>
                               Inr (case transform ds of Some f \<Rightarrow> fst (f d)
                                                       | None \<Rightarrow> torch_Tensor A d,
                                    label)))))" for w'
    using assms by (simp add: getitem_fst fetch_fst load_image_fst split: sum.splits option.splits)
  have same: "fst (getitem A P ds w2 idx) = fst (getitem A P ds w idx)" if "files w2 = files w" for w2
    unfolding formula that by (rule refl)
  have "files (snd (fetch A P ds w idx)) = files w"
    by (simp add: fetch_snd)
  then have "fst (getitem A P ds (snd (fetch A P ds w idx)) idx) = fst (getitem A P ds w idx)"
    by (rule same)
  then show ?thesis using formula [of w] assms by (simp add: getitem_dataset getitem_io)
qed

lemma init_loop_Cons:
  "init_loop A P ld pl i (imf # rest) st w =
     (if preload st then
        (case fst (load_image A P (self st) w imf) of
           Inl e \<Rightarrow> (Inl e, snd (load_image A P (self st) w imf))
         | Inr d \<Rightarrow>
             (if over_limit (preload_size st + nbytes d) pl
              then init_loop A P ld pl (Suc i) rest
                     (st\<lparr>image_labels := image_labels st @ [label_of ld imf], preload := False\<rparr>)
                     (snd (load_image A P (self st) w imf))
              else init_loop A P ld pl (Suc i) rest
                     (st\<lparr>image_labels := image_labels st @ [label_of ld imf],
                         self := (self st)\<lparr>data := (data (self st))(int i \<mapsto> d)\<rparr>,
                         preload_size := preload_size st + nbytes d\<rparr>)
                     (snd (load_image A P (self st) w imf))))
      else init_loop A P ld pl (Suc i) rest
             (st\<lparr>image_labels := image_labels st @ [label_of ld imf]\<rparr>) w)"
  by (simp add: Let_def label_of_def split: prod.splits sum.splits)

lemma init_loop_labels:
  "init_loop A P ld pl i imgs st w = (Inr st', w')
     \<Longrightarrow> image_labels st' = image_labels st @ map (label_of ld) imgs"
proof (induction imgs arbitrary: i st w)
  case Nil
  then show ?case by simp
next
  case (Cons imf rest)
  from Cons.prems show ?case
    unfolding init_loop_Cons
    by (auto split: if_splits sum.splits dest!: Cons.IH)
qed

lemma init_loop_settings:
  "init_loop A P ld pl i imgs st w = (Inr st', w')
     \<Longrightarrow> transform (self st') = transform (self st) \<and> shape_str (self st') = shape_str (self st)
       \<and> resize (self st') = resize (self st) \<and> scale (self st') = scale (self st)
       \<and> rgb_mean (self st') = rgb_mean (self st)"
proof (induction imgs arbitrary: i st w)
  case Nil
  then show ?case by simp
next
  case (Cons imf rest)
  from Cons.prems show ?case
    unfolding init_loop_Cons
    by (auto split: if_splits sum.splits dest!: Cons.IH)
qed

lemma init_loop_files:
  "init_loop A P ld pl i imgs st w = (r, w') \<Longrightarrow> files w' = files w"
proof (induction imgs arbitrary: i st w)
  case Nil
  then show ?case by simp
next
  case (Cons imf rest)
  from Cons.prems show ?case
    unfolding init_loop_Cons
    by (auto simp: load_image_snd split: if_splits sum.splits dest!: Cons.IH)
qed

lemma dataset_init_fields:
  assumes "dataset_init A P args w = (Inr ds, w')"
  shows "data_path ds = arg_images args"
    and "n_sample ds = length (arg_images args)"
    and "labels ds = (case arg_labels args of Some ls \<Rightarrow> ls
                      | None \<Rightarrow> map (label_of (arg_label_dirname args)) (arg_images args))"
    and "transform ds = arg_transform args"
    and "shape_str ds = arg_shape args"
    and "resize ds = arg_resize args"
    and "scale ds = arg_scale args"
    and "rgb_mean ds = arg_rgb_mean args"
    and "files w' = files w"
  using assms
  by (auto simp: dataset_init_def Let_def split: prod.splits sum.splits option.splits
      dest: init_loop_labels init_loop_settings init_loop_files)



text \<open>
  Claim C8. A dataset built over a list of paths has the length of that list, and an
  access at a valid index returns, with the data, the label given by the caller for
  that index when labels were given (a list parallel to the paths), else the base name
  of the path, or of its directory when \<open>label_dirname\<close> is set.
\<close>

theorem dataset_len_and_label:
  assumes init: "dataset_init A P args w = (Inr ds, w')"
    and valid: "0 \<le> i" "i < int (length (arg_images args))"
    and parallel: "\<forall>ls. arg_labels args = Some ls \<longrightarrow> length ls = length (arg_images args)"
  shows "dataset_len ds = length (arg_images args)
       \<and> fst (getitem A P ds w2 i) =
           (case fst (fetch A P ds w2 i) of
              Inl e \<Rightarrow> Inl e
            | Inr d \<Rightarrow>
                Inr (case arg_transform args of Some f \<Rightarrow> fst (f d) | None \<Rightarrow> torch_Tensor A d,
                     case arg_labels args of
                       Some ls \<Rightarrow> ls ! nat i
                     | None \<Rightarrow>
                         (if arg_label_dirname args
                          then basename (dirname (arg_images args ! nat i))
                          else basename (arg_images args ! nat i))))"
proof -
  note f = dataset_init_fields [OF init]
  have len: "length (labels ds) = length (arg_images args)"
    using parallel by (simp add: f(3) split: option.splits)
  have lab: "py_index (labels ds) i
               = Inr (case arg_labels args of
                        Some ls \<Rightarrow> ls ! nat i
                      | None \<Rightarrow>
                          (if arg_label_dirname args
                           then basename (dirname (arg_images args ! nat i))
                           else basename (arg_images args ! nat i)))"
    using valid len by (simp add: py_index_def Let_def f(3) label_of_def split: option.splits)
  show ?thesis
    by (simp add: dataset_len_def f(2) getitem_fst lab f(4) split: sum.splits)
qed






lemma pets_init:
  "dataset_init rat_arith nearest_pil pets_args disk
     = (Inr pets, snd (dataset_init rat_arith nearest_pil pets_args disk))"
proof -
  have "\<not> isl (fst (dataset_init rat_arith nearest_pil pets_args disk))"
    by code_simp
  then show ?thesis
    by (cases "dataset_init rat_arith nearest_pil pets_args disk") (auto simp: pets_def isl_def)
qed

lemma pets_rex_not_cached: "data pets 1 = None"
  by code_simp

lemma pets_getitem_rex:
  "fst (getitem rat_arith nearest_pil pets disk 1)
     = Inr (\<lparr>tshape = [3, 1, 1], telems = [2 / 5, 2 / 5, 2 / 5], tdevice = ''cpu'',
             requires_grad = False, grad_fn = None\<rparr>, ''dogs'')"
  by code_simp

theorem getitem_idempotent_witness:
  "data pets 1 = None
   \<and> fst (getitem rat_arith nearest_pil
            (fst (snd (getitem rat_arith nearest_pil pets disk 1)))
            (snd (snd (getitem rat_arith nearest_pil pets disk 1))) 1)
       = Inr (\<lparr>tshape = [3, 1, 1], telems = [2 / 5, 2 / 5, 2 / 5], tdevice = ''cpu'',
               requires_grad = False, grad_fn = None\<rparr>, ''dogs'')"
  using getitem_idempotent [OF pets_rex_not_cached, of rat_arith nearest_pil disk,
      THEN conjunct1]
  by (simp only: pets_getitem_rex pets_rex_not_cached simp_thms)

theorem dataset_len_and_label_witness:
  "dataset_len pets = 3
   \<and> fst (getitem rat_arith nearest_pil pets disk 1)
       = Inr (torch_Tensor rat_arith \<lparr>shape = [3, 1, 1], elems = [2 / 5, 2 / 5, 2 / 5]\<rparr>, ''dogs'')"
proof -
  have fe: "fst (fetch rat_arith nearest_pil pets disk 1)
              = Inr \<lparr>shape = [3, 1, 1], elems = [2 / 5, 2 / 5, 2 / 5]\<rparr>"
    by code_simp
  have valid: "(0::int) \<le> 1" "(1::int) < int (length (arg_images pets_args))"
    by (simp_all add: pets_args_def)
  have par: "\<forall>ls. arg_labels pets_args = Some ls \<longrightarrow> length ls = length (arg_images pets_args)"
    by (simp add: pets_args_def)
  have lab: "basename (dirname ''dogs/rex.png'') = ''dogs''"
    by code_simp
  from dataset_len_and_label [OF pets_init valid par, of disk]
  show ?thesis
    by (simp add: fe pets_args_def lab)
qed

lemma kept_pets_init:
  "dataset_init rat_arith nearest_pil (pets_args\<lparr>arg_transform := Some take_only\<rparr>) disk
     = (Inr kept_pets,
        snd (dataset_init rat_arith nearest_pil (pets_args\<lparr>arg_transform := Some take_only\<rparr>) disk))"
proof -
  have "\<not> isl (fst (dataset_init rat_arith nearest_pil
                       (pets_args\<lparr>arg_transform := Some take_only\<rparr>) disk))"
    by code_simp
  then show ?thesis
    by (cases "dataset_init rat_arith nearest_pil (pets_args\<lparr>arg_transform := Some take_only\<rparr>) disk")
       (auto simp: kept_pets_def isl_def)
qed

lemma kept_pets_tom_cached:
  "data kept_pets 0 = Some \<lparr>shape = [3, 1, 1], elems = [1, 0, 1 / 5]\<rparr>"
  by code_simp

theorem getitem_state_after_access_witness:
  "data kept_pets 0 = Some \<lparr>shape = [3, 1, 1], elems = [1, 0, 1 / 5]\<rparr>
   \<and> transform kept_pets = Some take_only
   \<and> fst (snd (getitem rat_arith nearest_pil kept_pets disk 0)) = kept_pets
   \<and> opened (snd (snd (getitem rat_arith nearest_pil kept_pets disk 0))) = []"
proof -
  let ?g = "getitem rat_arith nearest_pil kept_pets disk 0"
  have tr: "transform kept_pets = Some take_only"
    using dataset_init_fields [OF kept_pets_init] by simp
  have acc: "?g = (fst ?g, fst (snd ?g), snd (snd ?g))" by simp
  have pure: "\<forall>f d. transform kept_pets = Some f \<longrightarrow> data kept_pets 0 = Some d \<longrightarrow> snd (f d) = d"
    by (simp add: tr take_only_def)
  note st = getitem_state_after_access [OF acc]
  from st pure have "fst (snd ?g) = kept_pets" by blast
  moreover from st have "opened (snd (snd ?g)) = opened disk @ []"
    by (simp add: kept_pets_tom_cached)
  ultimately show ?thesis
    by (simp add: kept_pets_tom_cached tr disk_def)
qed

text \<open>
  Claim C9 says that an access leaves the cache contents unchanged. With a transform that
  clears its argument in place, an access at the cached index 0 leaves the cache holding
  the cleared array.
\<close>

theorem getitem_cache_contents_counterexample:
  "data cleared_pets 0 = Some \<lparr>shape = [3, 1, 1], elems = [1, 0, 1 / 5]\<rparr>
   \<and> data (fst (snd (getitem rat_arith nearest_pil cleared_pets disk 0))) 0
       = Some \<lparr>shape = [3, 1, 1], elems = [0, 0, 0]\<rparr>"
  by code_simp








subsection \<open>The pipeline of one image\<close>

lemma ebind_Inr [simp]: "ebind (Inr v) f = f v"
  by (simp add: ebind_def)

lemma ebind_Inl [simp]: "ebind (Inl e) f = Inl e"
  by (simp add: ebind_def)

lemma ebind_eq_Inr: "ebind r f = Inr y \<longleftrightarrow> (\<exists>v. r = Inr v \<and> f v = Inr y)"
  by (cases r) simp_all

lemma unravel:
  "(n div (n1 * n2) * n1 + (n div n2) mod n1) * n2 + n mod n2 = (n::nat)"
proof -
  have "n div (n1 * n2) = n div (n2 * n1)"
    by (simp only: mult.commute)
  also have "\<dots> = (n div n2) div n1"
    by (rule div_mult2_eq)
  finally show ?thesis by simp
qed

lemma ravel:
  assumes "i1 < n1" "i2 < (n2::nat)"
  shows "((i0 * n1 + i1) * n2 + i2) div (n1 * n2) = i0"
    and "(((i0 * n1 + i1) * n2 + i2) div n2) mod n1 = i1"
    and "((i0 * n1 + i1) * n2 + i2) mod n2 = i2"
proof -
  have d2: "((i0 * n1 + i1) * n2 + i2) div n2 = i0 * n1 + i1"
    using assms(2) by simp
  show "(((i0 * n1 + i1) * n2 + i2) div n2) mod n1 = i1"
    using assms(1) by (simp add: d2)
  show "((i0 * n1 + i1) * n2 + i2) mod n2 = i2"
    using assms(2) by simp
  have "((i0 * n1 + i1) * n2 + i2) div (n1 * n2) = ((i0 * n1 + i1) * n2 + i2) div (n2 * n1)"
    by (simp only: mult.commute)
  also have "\<dots> = (((i0 * n1 + i1) * n2 + i2) div n2) div n1"
    by (rule div_mult2_eq)
  also have "\<dots> = i0" using assms(1) by (simp add: d2)
  finally show "((i0 * n1 + i1) * n2 + i2) div (n1 * n2) = i0" .
qed

lemma ravel_bound:
  assumes "i0 < n0" "i1 < n1" "i2 < (n2::nat)"
  shows "(i0 * n1 + i1) * n2 + i2 < n0 * n1 * n2"
proof -
  have "i0 * n1 + i1 < n0 * n1"
  proof -
    have "i0 * n1 + i1 < i0 * n1 + n1" using assms(2) by simp
    also have "\<dots> = Suc i0 * n1" by simp
    also have "\<dots> \<le> n0 * n1" using assms(1) by (intro mult_le_mono1) simp
    finally show ?thesis .
  qed
  then have "Suc (i0 * n1 + i1) \<le> n0 * n1" by simp
  then have "Suc (i0 * n1 + i1) * n2 \<le> n0 * n1 * n2" by (rule mult_le_mono1)
  moreover have "(i0 * n1 + i1) * n2 + i2 < Suc (i0 * n1 + i1) * n2"
    using assms(3) by simp
  ultimately show ?thesis by linarith
qed

lemma transpose_axes_Inr:
  assumes "transpose_axes d (a0, a1, a2) = Inr t"
  shows "shape t = [shape d ! a0, shape d ! a1, shape d ! a2]"
    and "length (elems t) = shape d ! a0 * (shape d ! a1) * (shape d ! a2)"
    and "length (shape d) = 3" and "distinct [a0, a1, a2]"
    and "elems t = map (\<lambda>n. elems d ! offset (shape d)
                     (src_index (a0, a1, a2)
                        (n div (shape d ! a1 * (shape d ! a2)),
                         (n div (shape d ! a2)) mod (shape d ! a1), n mod (shape d ! a2))))
                   [0..<shape d ! a0 * (shape d ! a1) * (shape d ! a2)]"
  using assms by (auto simp: transpose_axes_def Let_def split: if_splits)

lemma transpose_axes_entry:
  assumes t: "transpose_axes d (a0, a1, a2) = Inr t"
    and i: "i0 < shape t ! 0" "i1 < shape t ! 1" "i2 < shape t ! 2"
  shows "elems t ! offset (shape t) (i0, i1, i2)
           = elems d ! offset (shape d) (src_index (a0, a1, a2) (i0, i1, i2))"
proof -
  note p = transpose_axes_Inr [OF t]
  let ?na = "shape d ! a0" and ?nb = "shape d ! a1" and ?nc = "shape d ! a2"
  from i have b: "i0 < ?na" "i1 < ?nb" "i2 < ?nc" by (simp_all add: p(1))
  let ?lin = "(i0 * ?nb + i1) * ?nc + i2"
  have off: "offset (shape t) (i0, i1, i2) = ?lin" by (simp add: offset_def p(1))
  have lt: "?lin < ?na * ?nb * ?nc" by (rule ravel_bound [OF b])
  show ?thesis
    unfolding off
    by (subst p(5)) (simp add: lt ravel [OF b(2,3)] b(3) del: upt_Suc)
qed

lemma transpose_identity:
  assumes sh: "shape d = [n0, n1, n2]" and len: "length (elems d) = n0 * n1 * n2"
  shows "transpose_axes d (0, 1, 2) = Inr d"
proof -
  have src: "src_index (0, Suc 0, 2) ix = ix" for ix :: "nat \<times> nat \<times> nat"
    by (cases ix) (simp add: src_index_def)
  have "map (\<lambda>n. elems d ! offset (shape d)
                     (src_index (0, 1, 2) (n div (n1 * n2), (n div n2) mod n1, n mod n2)))
          [0..<n0 * n1 * n2] = map (\<lambda>n. elems d ! n) [0..<length (elems d)]"
    by (simp add: src offset_def sh unravel len del: upt_Suc)
  also have "\<dots> = elems d" by (rule map_nth)
  finally show ?thesis
    by (simp add: transpose_axes_def sh)
qed

lemma axes_of_hwc: "axes_of ''hwc'' = Inr (0, 1, 2)"
  by (simp add: axes_of_def axis_at_def s2d_def)

lemma normalize_rgb:
  "mode img = RGB \<Longrightarrow>
   normalize P img = \<lparr>shape = [height img, width img, 3], elems = pixels img\<rparr>"
  by (simp add: normalize_def asarray_def Let_def)

text \<open>
  Claim C5. An image that is already RGB, loaded with no resize, the shape \<^verbatim>\<open>'hwc'\<close>,
  the scale 1 and no mean, comes back as the array of its pixels, in the order and the shape
  (height, width, 3) in which the decoder gives them, each divided by 255. The scale is the
  float 1, so the product with it is the identity; this is the only fact of float arithmetic
  that is used.
\<close>

theorem rgb_image_divided_by_255:
  assumes one: "\<forall>x. fmul A x (to_float A 1) = x"
    and settings: "resize ds = None" "shape_str ds = ''hwc''" "scale ds = to_float A 1"
      "rgb_mean ds = None"
    and found: "files w fpath = Some img"
    and rgb: "mode img = RGB"
    and wf: "length (pixels img) = height img * width img * 3"
  shows "fst (load_image A P ds w fpath)
           = Inr \<lparr>shape = [height img, width img, 3],
                  elems = map (\<lambda>p. fdiv A (to_float A p) (to_float A 255)) (pixels img)\<rparr>"
proof -
  let ?d = "\<lparr>shape = [height img, width img, 3], elems = pixels img\<rparr>"
  have tr: "transpose_axes ?d (0, 1, 2) = Inr ?d"
    by (rule transpose_identity [of _ "height img" "width img" 3]) (simp_all add: wf)
  have "pipeline A P None ''hwc'' (to_float A 1) None img
          = Inr (scaling A (to_float A 1) ?d)"
    using tr by (simp add: pipeline_def resized_def normalize_rgb [OF rgb] axes_of_hwc centering_def)
  also have "scaling A (to_float A 1) ?d
               = \<lparr>shape = [height img, width img, 3],
                  elems = map (\<lambda>p. fdiv A (to_float A p) (to_float A 255)) (pixels img)\<rparr>"
    using one by (simp add: scaling_def)
  finally show ?thesis
    by (simp add: load_image_fst found settings)
qed

theorem rgb_image_divided_by_255_witness:
  "fst (load_image rat_arith nearest_pil
          (pets\<lparr>shape_str := ''hwc''\<rparr>) disk ''cats/tom.png'')
     = Inr \<lparr>shape = [1, 1, 3], elems = [255 / 255, 0 / 255, 51 / 255]\<rparr>"
proof -
  have one: "\<forall>x. fmul rat_arith x (to_float rat_arith 1) = x"
    by (simp add: rat_arith_def)
  have settings: "resize (pets\<lparr>shape_str := ''hwc''\<rparr>) = None"
    "shape_str (pets\<lparr>shape_str := ''hwc''\<rparr>) = ''hwc''"
    "scale (pets\<lparr>shape_str := ''hwc''\<rparr>) = to_float rat_arith 1"
    "rgb_mean (pets\<lparr>shape_str := ''hwc''\<rparr>) = None"
    using dataset_init_fields [OF pets_init] by (simp_all add: pets_args_def rat_arith_def)
  have found: "files disk ''cats/tom.png'' = Some tom"
    by (simp add: disk_def)
  have rgb: "mode tom = RGB" and wf: "length (pixels tom) = height tom * width tom * 3"
    by (simp_all add: tom_def)
  from rgb_image_divided_by_255 [OF one settings found rgb wf, of nearest_pil]
  show ?thesis
    by (simp add: tom_def rat_arith_def)
qed


subsection \<open>Resizing\<close>

lemma normalize_shape:
  "shape (normalize P img) = [height img, width img, if mode img = LA then 2 else 3]"
  by (cases "mode img")
     (simp_all add: normalize_def convert_rgb_def paste_on_white_def asarray_def stack3_def Let_def)

lemma resized_Some:
  "0 < a \<Longrightarrow> 0 < b \<Longrightarrow>
   \<exists>d. resized P (Some (a, b)) (normalize P img) = Inr d
       \<and> shape d = [b, a, if mode img = LA then 2 else 3]"
  by (simp add: resized_def fromarray_def normalize_shape asarray_def pil_resize_def)

lemma resized_returns:
  assumes "\<forall>a b. rs = Some (a, b) \<longrightarrow> 0 < a \<and> 0 < b"
  shows "\<exists>d. resized P rs (normalize P img) = Inr d \<and> length (shape d) = 3
           \<and> shape d ! 2 = (if mode img = LA then 2 else 3)"
proof (cases rs)
  case None
  then show ?thesis by (simp add: resized_def normalize_shape)
next
  case (Some sz)
  obtain a b where sz: "sz = (a, b)" by (cases sz)
  with Some assms have "0 < a" "0 < b" by simp_all
  from resized_Some [OF this, of P img] show ?thesis
    unfolding Some sz by auto
qed

lemma scaling_shape [simp]: "shape (scaling A sc d) = shape d"
  by (simp add: scaling_def)

lemma sub_at_shape: "sub_at A m k d = Inr d' \<Longrightarrow> shape d' = shape d"
  by (auto simp: sub_at_def split: if_splits)

lemma centering_shape: "centering A rm d = Inr r \<Longrightarrow> shape r = shape d"
  by (cases rm) (auto simp: centering_def ebind_eq_Inr dest!: sub_at_shape)

text \<open>
  Claim C3, as the code has it. The pair given as \<open>resize\<close> goes unchanged to the
  \<open>resize\<close> method of the imaging library, which reads it as (width, height) and
  wants both sides positive: then the decoded image, brought to three axes, is resampled
  to an array of \<open>resize[1]\<close> rows and \<open>resize[0]\<close> columns, whatever the image, and the
  loaded array is the axis permutation, the scaling and the centering of that array. When
  the load returns, its shape is the permuted shape of the resampled array.
\<close>

theorem resize_is_width_then_height:
  assumes rs: "resize ds = Some (a, b)"
    and pos: "0 < a" "0 < b"
    and found: "files w fpath = Some img"
  shows "\<exists>d. resized P (Some (a, b)) (normalize P img) = Inr d
            \<and> shape d = [b, a, if mode img = LA then 2 else 3]
            \<and> fst (load_image A P ds w fpath)
                = ebind (axes_of (shape_str ds)) (\<lambda>axes. ebind (transpose_axes d axes) (\<lambda>t.
                    centering A (rgb_mean ds) (scaling A (scale ds) t)))
            \<and> (\<forall>r. fst (load_image A P ds w fpath) = Inr r \<longrightarrow>
                  (\<exists>a0 a1 a2. axes_of (shape_str ds) = Inr (a0, a1, a2)
                     \<and> shape r = [shape d ! a0, shape d ! a1, shape d ! a2]))"
proof -
  from resized_Some [OF pos, of P img] obtain d
    where d: "resized P (Some (a, b)) (normalize P img) = Inr d"
      and sd: "shape d = [b, a, if mode img = LA then 2 else 3]" by blast
  let ?rest = "ebind (axes_of (shape_str ds)) (\<lambda>axes. ebind (transpose_axes d axes) (\<lambda>t.
                    centering A (rgb_mean ds) (scaling A (scale ds) t)))"
  have run: "fst (load_image A P ds w fpath) = ?rest"
    by (simp add: load_image_fst found pipeline_def rs d)
  have "\<exists>a0 a1 a2. axes_of (shape_str ds) = Inr (a0, a1, a2)
                     \<and> shape r = [shape d ! a0, shape d ! a1, shape d ! a2]"
    if "fst (load_image A P ds w fpath) = Inr r" for r
  proof -
    from that run have "?rest = Inr r" by simp
    then obtain axes t where ax: "axes_of (shape_str ds) = Inr axes"
      and t: "transpose_axes d axes = Inr t"
      and c: "centering A (rgb_mean ds) (scaling A (scale ds) t) = Inr r"
      by (auto simp: ebind_eq_Inr)
    obtain a0 a1 a2 where axes: "axes = (a0, a1, a2)" by (cases axes)
    from centering_shape [OF c] transpose_axes_Inr(1) [OF t [unfolded axes]]
    have "shape r = [shape d ! a0, shape d ! a1, shape d ! a2]" by simp
    with ax axes show ?thesis by blast
  qed
  with d sd run show ?thesis by blast
qed

text \<open>
  Claim C3 reads the pair as (height, width). With \<open>resize = (2, 3)\<close> and the shape
  \<^verbatim>\<open>'hwc'\<close> the loaded array of a one-pixel RGB image has 3 rows and 2 columns, not 2
  rows and 3 columns.
\<close>

theorem resize_height_width_counterexample:
  "fst (load_image rat_arith nearest_pil (pets\<lparr>resize := Some (2, 3), shape_str := ''hwc''\<rparr>)
          disk ''cats/tom.png'')
     = Inr \<lparr>shape = [3, 2, 3], elems = concat (replicate 6 [1, 0, 1 / 5])\<rparr>"
  by code_simp

theorem resize_is_width_then_height_witness:
  "\<exists>d. resized nearest_pil (Some (3, 1)) (normalize nearest_pil rex) = Inr d
       \<and> shape d = [1, 3, 3]
       \<and> map_sum id shape (fst (load_image rat_arith nearest_pil (pets\<lparr>resize := Some (3, 1)\<rparr>)
                                  disk ''dogs/rex.png'')) = Inr [3, 1, 3]"
proof -
  let ?ds = "pets\<lparr>resize := Some (3, 1)\<rparr>"
  have rs: "resize ?ds = Some (3, 1)" by simp
  have found: "files disk ''dogs/rex.png'' = Some rex" by (simp add: disk_def)
  have sh: "shape_str ?ds = ''chw''"
    using dataset_init_fields [OF pets_init] by (simp add: pets_args_def)
  have ax: "axes_of ''chw'' = Inr (2, 0, 1)"
    by (simp add: axes_of_def axis_at_def s2d_def)
  have "fst (load_image rat_arith nearest_pil ?ds disk ''dogs/rex.png'')
          = Inr \<lparr>shape = [3, 1, 3], elems = replicate 9 (2 / 5)\<rparr>"
    by code_simp
  then obtain r where r: "fst (load_image rat_arith nearest_pil ?ds disk ''dogs/rex.png'') = Inr r" ..
  have pos: "(0::nat) < 3" "(0::nat) < 1" by simp_all
  from resize_is_width_then_height [OF rs pos found, of nearest_pil rat_arith]
  obtain d where d: "resized nearest_pil (Some (3, 1)) (normalize nearest_pil rex) = Inr d"
    and sd: "shape d = [1, 3, if mode rex = LA then 2 else 3]"
    and all: "\<forall>r. fst (load_image rat_arith nearest_pil ?ds disk ''dogs/rex.png'') = Inr r \<longrightarrow>
                  (\<exists>a0 a1 a2. axes_of (shape_str ?ds) = Inr (a0, a1, a2)
                     \<and> shape r = [shape d ! a0, shape d ! a1, shape d ! a2])"
    by blast
  from all r obtain a0 a1 a2 where "axes_of (shape_str ?ds) = Inr (a0, a1, a2)"
    and "shape r = [shape d ! a0, shape d ! a1, shape d ! a2]" by blast
  with sh ax sd have "shape r = [3, 1, 3]" by (simp add: rex_def)
  with d sd r show ?thesis by (simp add: rex_def)
qed


subsection \<open>Centering\<close>

lemma seg_outside:
  assumes "length X = length Y" and "q + n \<le> length A \<or> length A + length X \<le> q"
  shows "take n (drop q (A @ X @ C)) = take n (drop q (A @ Y @ C))"
  using assms by auto

lemma seg_inside: "length X = n \<Longrightarrow> take n (drop (length A) (A @ X @ C)) = X"
  by simp

lemma sub_at_elems:
  assumes ok: "sub_at A m k d = Inr d'"
    and len: "Suc k * prod_list (tl (shape d)) \<le> length (elems d)"
  shows "length (elems d') = length (elems d)"
    and "slice d' k = map (\<lambda>x. fsub A x (m ! k)) (slice d k)"
    and "\<And>j. j \<noteq> k \<Longrightarrow> slice d' j = slice d j"
proof -
  let ?n = "prod_list (tl (shape d))"
  let ?A = "take (k * ?n) (elems d)" and ?B = "slice d k" and ?C = "drop (Suc k * ?n) (elems d)"
  let ?f = "\<lambda>x. fsub A x (m ! k)"
  from len have kn: "k * ?n \<le> length (elems d)" and kn': "k * ?n + ?n \<le> length (elems d)"
    by simp_all
  have lA: "length ?A = k * ?n" using kn by simp
  have lB: "length ?B = ?n" using kn' by (simp add: slice_def)
  have "?B @ ?C = take ?n (drop (k * ?n) (elems d)) @ drop ?n (drop (k * ?n) (elems d))"
    by (simp add: slice_def add.commute)
  also have "\<dots> = drop (k * ?n) (elems d)"
    by (rule append_take_drop_id)
  finally have abc: "?A @ ?B @ ?C = elems d"
    by (simp only: append_take_drop_id)
  then have e: "elems d = ?A @ ?B @ ?C" by (rule sym)
  from ok have e': "elems d' = ?A @ map ?f ?B @ ?C" and sh: "shape d' = shape d"
    by (auto simp: sub_at_def split: if_splits)
  have "length (elems d') = length (?A @ ?B @ ?C)"
    by (simp only: e' length_append length_map)
  then show "length (elems d') = length (elems d)"
    by (simp only: abc)
  have "slice d' k = take ?n (drop (length ?A) (?A @ map ?f ?B @ ?C))"
    by (simp only: slice_def sh e' lA)
  also have "\<dots> = map ?f ?B"
    by (rule seg_inside) (simp add: lB)
  finally show "slice d' k = map ?f ?B" .
  show "slice d' j = slice d j" if "j \<noteq> k" for j
  proof -
    from that have "j < k \<or> k < j" by auto
    then have "Suc j \<le> k \<or> Suc k \<le> j" by auto
    then have "Suc j * ?n \<le> k * ?n \<or> Suc k * ?n \<le> j * ?n"
      using mult_le_mono1 by blast
    then have "j * ?n + ?n \<le> k * ?n \<or> k * ?n + ?n \<le> j * ?n"
      by (simp add: add.commute)
    then have side: "j * ?n + ?n \<le> length ?A \<or> length ?A + length (map ?f ?B) \<le> j * ?n"
      unfolding length_map lA lB .
    have "slice d' j = take ?n (drop (j * ?n) (?A @ map ?f ?B @ ?C))"
      by (simp only: slice_def sh e')
    also have "\<dots> = take ?n (drop (j * ?n) (?A @ ?B @ ?C))"
      by (rule seg_outside [OF _ side]) simp
    also have "\<dots> = slice d j"
      unfolding slice_def [of d j] by (subst (3) e) (rule refl)
    finally show ?thesis .
  qed
qed

lemma sub_at_returns:
  "shape d \<noteq> [] \<Longrightarrow> k < hd (shape d) \<Longrightarrow> k < length m \<Longrightarrow> \<exists>d'. sub_at A m k d = Inr d'"
  by (simp add: sub_at_def)

lemma centering_returns:
  assumes "shape d \<noteq> []" "3 \<le> hd (shape d)" "3 \<le> length m"
  shows "\<exists>r. centering A (Some m) d = Inr r"
proof -
  from assms have b: "0 < hd (shape d)" "1 < hd (shape d)" "2 < hd (shape d)"
    "0 < length m" "1 < length m" "2 < length m" by auto
  from sub_at_returns [OF assms(1) b(1) b(4)]
  obtain d0 where d0: "sub_at A m 0 d = Inr d0" by blast
  note s0 = sub_at_shape [OF d0]
  from sub_at_returns [of d0 1 m A] assms(1) b(2) b(5) s0
  obtain d1 where d1: "sub_at A m 1 d0 = Inr d1" by auto
  note s1 = sub_at_shape [OF d1]
  from sub_at_returns [of d1 2 m A] assms(1) b(3) b(6) s0 s1
  obtain r where "sub_at A m 2 d1 = Inr r" by auto
  with d0 d1 show ?thesis by (simp add: centering_def)
qed

lemma centering_slices:
  assumes ok: "centering A (Some m) d = Inr r"
    and len: "3 * prod_list (tl (shape d)) \<le> length (elems d)"
    and k: "k < 3"
  shows "slice r k = map (\<lambda>x. fsub A x (m ! k)) (slice d k)"
proof -
  let ?n = "prod_list (tl (shape d))"
  from ok obtain d0 d1 where d0: "sub_at A m 0 d = Inr d0" and d1: "sub_at A m 1 d0 = Inr d1"
    and r: "sub_at A m 2 d1 = Inr r"
    by (auto simp: centering_def ebind_eq_Inr)
  note s0 = sub_at_shape [OF d0] and s1 = sub_at_shape [OF d1]
  from len have l0: "Suc 0 * ?n \<le> length (elems d)" by simp
  note p0 = sub_at_elems [OF d0 l0]
  from len have l1: "Suc 1 * prod_list (tl (shape d0)) \<le> length (elems d0)"
    by (simp add: s0 p0(1))
  note p1 = sub_at_elems [OF d1 l1]
  from len have l2: "Suc 2 * prod_list (tl (shape d1)) \<le> length (elems d1)"
    by (simp add: s0 s1 p0(1) p1(1))
  note p2 = sub_at_elems [OF r l2]
  from k consider "k = 0" | "k = 1" | "k = 2" by linarith
  then show ?thesis
  proof cases
    case 1
    have "slice r 0 = slice d1 0" by (rule p2(3)) simp
    also have "\<dots> = slice d0 0" by (rule p1(3)) simp
    also have "\<dots> = map (\<lambda>x. fsub A x (m ! 0)) (slice d 0)" by (rule p0(2))
    finally show ?thesis by (simp only: 1)
  next
    case 2
    have "slice r 1 = slice d1 1" by (rule p2(3)) simp
    also have "\<dots> = map (\<lambda>x. fsub A x (m ! 1)) (slice d0 1)" by (rule p1(2))
    also have "slice d0 1 = slice d 1" by (rule p0(3)) simp
    finally show ?thesis by (simp only: 2)
  next
    case 3
    have "slice r 2 = map (\<lambda>x. fsub A x (m ! 2)) (slice d1 2)" by (rule p2(2))
    also have "slice d1 2 = slice d0 2" by (rule p1(3)) simp
    also have "slice d0 2 = slice d 2" by (rule p0(3)) simp
    finally show ?thesis by (simp only: 3)
  qed
qed

lemma slice_entry:
  assumes sh: "shape d = [n0, n1, n2]" and len: "length (elems d) = n0 * n1 * n2"
    and b: "k < n0" "i < n1" "j < n2"
  shows "slice d k ! (i * n2 + j) = elems d ! offset (shape d) (k, i, j)"
proof -
  have a: "i * n2 + j < n1 * n2"
    using ravel_bound [of 0 1 i n1 j n2] b by simp
  have "k * (n1 * n2) + (i * n2 + j) = (k * n1 + i) * n2 + j"
    by (simp add: algebra_simps)
  moreover have "(k * n1 + i) * n2 + j < n0 * n1 * n2" by (rule ravel_bound [OF b])
  ultimately have "k * (n1 * n2) + (i * n2 + j) < length (elems d)" by (simp add: len)
  then have "k * (n1 * n2) \<le> length (elems d)" by simp
  then have "slice d k ! (i * n2 + j) = elems d ! (k * (n1 * n2) + (i * n2 + j))"
    using a by (simp add: slice_def sh)
  also have "k * (n1 * n2) + (i * n2 + j) = offset (shape d) (k, i, j)"
    by (simp add: offset_def sh algebra_simps)
  finally show ?thesis .
qed

lemma axes_of_take3:
  assumes "take 3 s = [c0, c1, c2]"
  shows "axes_of s = ebind (s2d c0) (\<lambda>a0. ebind (s2d c1) (\<lambda>a1. ebind (s2d c2) (\<lambda>a2.
           Inr (a0, a1, a2))))"
proof -
  from assms have "length (take 3 s) = 3" by simp
  then have len: "3 \<le> length s" by simp
  have "s ! 0 = take 3 s ! 0" "s ! 1 = take 3 s ! 1" "s ! 2 = take 3 s ! 2"
    by simp_all
  then have "s ! 0 = c0" "s ! 1 = c1" "s ! 2 = c2"
    unfolding assms by simp_all
  moreover from len have "0 < length s" "1 < length s" "2 < length s" by linarith+
  ultimately show ?thesis
    by (simp only: axes_of_def axis_at_def if_True)
qed

lemma src_index_channel:
  assumes "a1 \<noteq> 2" "a2 \<noteq> 2"
  shows "snd (snd (src_index (2, a1, a2) (k, i, j))) = k"
proof -
  have "[0, 0, 0][2 := k, a1 := i, a2 := j] ! 2 = [0, 0, 0][2 := k, a1 := i] ! 2"
    by (rule nth_list_update_neq) (rule assms(2))
  also have "\<dots> = [0, 0, 0][2 := k] ! 2"
    by (rule nth_list_update_neq) (rule assms(1))
  also have "\<dots> = k" by simp
  finally show ?thesis
    by (simp only: src_index_def Let_def prod.case snd_conv)
qed

lemma centred_pipeline:
  assumes ax: "axes_of sh = Inr (2, a1, a2)"
    and perm: "a1 \<noteq> 2" "a2 \<noteq> 2" "a1 \<noteq> a2"
    and m: "3 \<le> length m"
    and img: "mode img \<noteq> LA"
    and sides: "\<forall>a b. rs = Some (a, b) \<longrightarrow> 0 < a \<and> 0 < b"
  shows "\<exists>d s r.
           resized P rs (normalize P img) = Inr d
         \<and> pipeline A P rs sh sc None img = Inr s
         \<and> pipeline A P rs sh sc (Some m) img = Inr r
         \<and> shape s = [3, shape d ! a1, shape d ! a2]
         \<and> shape r = shape s
         \<and> (\<forall>k<3. slice r k = map (\<lambda>x. fsub A x (m ! k)) (slice s k))
         \<and> (\<forall>k<3. \<forall>i<shape s ! 1. \<forall>j<shape s ! 2.
               slice s k ! (i * (shape s ! 2) + j)
                 = fmul A (fdiv A (to_float A
                     (elems d ! offset (shape d) (src_index (2, a1, a2) (k, i, j))))
                     (to_float A 255)) sc
               \<and> snd (snd (src_index (2, a1, a2) (k, i, j))) = k)"
proof -
  from resized_returns [OF sides, of P img] img obtain d
    where d: "resized P rs (normalize P img) = Inr d"
      and d3: "length (shape d) = 3" and ch: "shape d ! 2 = 3" by auto
  let ?nb = "shape d ! a1" and ?nc = "shape d ! a2"
  from d3 perm obtain t where t: "transpose_axes d (2, a1, a2) = Inr t"
    by (simp add: transpose_axes_def Let_def)
  note tp = transpose_axes_Inr [OF t]
  have st: "shape t = [3, ?nb, ?nc]" by (simp add: tp(1) ch)
  have lt: "length (elems t) = 3 * ?nb * ?nc" by (simp add: tp(2) ch)
  let ?s = "scaling A sc t"
  have ss: "shape ?s = [3, ?nb, ?nc]" by (simp add: st)
  have ls: "length (elems ?s) = 3 * ?nb * ?nc" by (simp add: scaling_def lt)
  have "shape ?s \<noteq> []" "3 \<le> hd (shape ?s)" by (simp_all add: st)
  from centering_returns [OF this m] obtain r where r: "centering A (Some m) ?s = Inr r" ..
  have ps: "pipeline A P rs sh sc None img = Inr ?s"
    by (simp add: pipeline_def d ax t centering_def)
  have pr: "pipeline A P rs sh sc (Some m) img = Inr r"
    by (simp add: pipeline_def d ax t r)
  have len: "3 * prod_list (tl (shape ?s)) \<le> length (elems ?s)"
    unfolding ss ls by simp
  have sl: "\<forall>k<3. slice r k = map (\<lambda>x. fsub A x (m ! k)) (slice ?s k)"
    using centering_slices [OF r len] by blast
  have en: "slice ?s k ! (i * (shape ?s ! 2) + j)
              = fmul A (fdiv A (to_float A
                  (elems d ! offset (shape d) (src_index (2, a1, a2) (k, i, j))))
                  (to_float A 255)) sc"
    if b: "k < 3" "i < shape ?s ! 1" "j < shape ?s ! 2" for k i j
  proof -
    from b have b': "k < 3" "i < ?nb" "j < ?nc" by (simp_all add: st)
    have off: "offset (shape ?s) (k, i, j) = offset (shape t) (k, i, j)" by simp
    have "offset (shape t) (k, i, j) = (k * ?nb + i) * ?nc + j"
      by (simp add: offset_def st)
    also have "\<dots> < 3 * ?nb * ?nc" by (rule ravel_bound [OF b'])
    finally have inb: "offset (shape t) (k, i, j) < length (elems t)" by (simp add: lt)
    have "slice ?s k ! (i * ?nc + j) = elems ?s ! offset (shape ?s) (k, i, j)"
      by (rule slice_entry [OF ss ls b'])
    also have "\<dots> = fmul A (fdiv A (to_float A (elems t ! offset (shape t) (k, i, j)))
                          (to_float A 255)) sc"
      unfolding off using inb by (simp add: scaling_def)
    also have "elems t ! offset (shape t) (k, i, j)
                 = elems d ! offset (shape d) (src_index (2, a1, a2) (k, i, j))"
      by (rule transpose_axes_entry [OF t]) (simp_all add: st b')
    finally show ?thesis by (simp add: st)
  qed
  have "\<forall>k<3. \<forall>i<shape ?s ! 1. \<forall>j<shape ?s ! 2.
               slice ?s k ! (i * (shape ?s ! 2) + j)
                 = fmul A (fdiv A (to_float A
                     (elems d ! offset (shape d) (src_index (2, a1, a2) (k, i, j))))
                     (to_float A 255)) sc
               \<and> snd (snd (src_index (2, a1, a2) (k, i, j))) = k"
    using en src_index_channel [OF perm(1,2)] by blast
  with d ps pr ss centering_shape [OF r] sl show ?thesis by blast
qed

text \<open>
  Claim C6. A dataset with a mean \<open>m\<close> of at least three entries, a shape string
  that puts the channel axis first (\<^verbatim>\<open>'chw'\<close> or \<^verbatim>\<open>'cwh'\<close>) and, if it resizes, a
  size with both sides positive, loads every image that has three channels once decoded
  (every mode but LA). Let \<open>s\<close> be what the same dataset
  loads with no mean, the scaled array, and \<open>d\<close> the array before the axis permutation.
  Then the loaded array \<open>r\<close> has the shape of \<open>s\<close>, with first axis 3; its sub-array
  at position \<open>k\<close> of the first axis is that of \<open>s\<close> with \<open>m[k]\<close> subtracted from every
  entry, for \<open>k = 0, 1, 2\<close>; and the sub-array of \<open>s\<close> at position \<open>k\<close> holds the pixel
  values of channel \<open>k\<close> of \<open>d\<close>, divided by 255 and multiplied by the scale.
\<close>

theorem mean_subtracted_per_channel_after_scaling:
  assumes sh: "take 3 (shape_str ds) = ''chw'' \<or> take 3 (shape_str ds) = ''cwh''"
    and mean: "rgb_mean ds = Some m" "3 \<le> length m"
    and found: "files w fpath = Some img"
    and img: "mode img \<noteq> LA"
    and sides: "\<forall>a b. resize ds = Some (a, b) \<longrightarrow> 0 < a \<and> 0 < b"
  shows "\<exists>d axes s r.
           resized P (resize ds) (normalize P img) = Inr d
         \<and> axes_of (shape_str ds) = Inr axes \<and> fst axes = 2
         \<and> fst (load_image A P (ds\<lparr>rgb_mean := None\<rparr>) w fpath) = Inr s
         \<and> fst (load_image A P ds w fpath) = Inr r
         \<and> shape s = [3, shape d ! fst (snd axes), shape d ! snd (snd axes)]
         \<and> shape r = shape s
         \<and> (\<forall>k<3. slice r k = map (\<lambda>x. fsub A x (m ! k)) (slice s k))
         \<and> (\<forall>k<3. \<forall>i<shape s ! 1. \<forall>j<shape s ! 2.
               slice s k ! (i * (shape s ! 2) + j)
                 = fmul A (fdiv A (to_float A
                     (elems d ! offset (shape d) (src_index axes (k, i, j))))
                     (to_float A 255)) (scale ds)
               \<and> snd (snd (src_index axes (k, i, j))) = k)"
proof -
  from sh obtain a1 a2 where ax: "axes_of (shape_str ds) = Inr (2, a1, a2)"
    and perm: "a1 \<noteq> 2" "a2 \<noteq> 2" "a1 \<noteq> a2"
  proof
    assume "take 3 (shape_str ds) = ''chw''"
    from axes_of_take3 [OF this] have "axes_of (shape_str ds) = Inr (2, 0, 1)"
      by (simp add: s2d_def)
    then show ?thesis by (rule that) simp_all
  next
    assume "take 3 (shape_str ds) = ''cwh''"
    from axes_of_take3 [OF this] have "axes_of (shape_str ds) = Inr (2, 1, 0)"
      by (simp add: s2d_def)
    then show ?thesis by (rule that) simp_all
  qed
  have l0: "fst (load_image A P (ds\<lparr>rgb_mean := None\<rparr>) w fpath)
              = pipeline A P (resize ds) (shape_str ds) (scale ds) None img"
    by (simp add: load_image_fst found)
  have l1: "fst (load_image A P ds w fpath)
              = pipeline A P (resize ds) (shape_str ds) (scale ds) (Some m) img"
    by (simp add: load_image_fst found mean)
  from centred_pipeline [OF ax perm mean(2) img sides, of P A "scale ds"]
  obtain d s r where f1: "resized P (resize ds) (normalize P img) = Inr d"
    and f2: "pipeline A P (resize ds) (shape_str ds) (scale ds) None img = Inr s"
    and f3: "pipeline A P (resize ds) (shape_str ds) (scale ds) (Some m) img = Inr r"
    and f4: "shape s = [3, shape d ! a1, shape d ! a2]"
    and f5: "shape r = shape s"
    and f6: "\<forall>k<3. slice r k = map (\<lambda>x. fsub A x (m ! k)) (slice s k)"
    and f7: "\<forall>k<3. \<forall>i<shape s ! 1. \<forall>j<shape s ! 2.
               slice s k ! (i * (shape s ! 2) + j)
                 = fmul A (fdiv A (to_float A
                     (elems d ! offset (shape d) (src_index (2, a1, a2) (k, i, j))))
                     (to_float A 255)) (scale ds)
               \<and> snd (snd (src_index (2, a1, a2) (k, i, j))) = k"
    by blast
  have e1: "fst (2::nat, a1, a2) = 2" by simp
  have e2: "shape s = [3, shape d ! fst (snd (2::nat, a1, a2)), shape d ! snd (snd (2::nat, a1, a2))]"
    using f4 by simp
  note g2 = trans [OF l0 f2] and g3 = trans [OF l1 f3]
  show ?thesis
    by (rule exI [of _ d], rule exI [of _ "(2, a1, a2)"], rule exI [of _ s], rule exI [of _ r])
       (intro conjI f1 ax e1 g2 g3 e2 f5 f6 f7)
qed

theorem mean_subtracted_per_channel_after_scaling_witness:
  "\<exists>r. fst (load_image rat_arith nearest_pil
              (pets\<lparr>resize := Some (2, 2), rgb_mean := Some [1 / 10, 1 / 5, 3 / 10]\<rparr>)
              shelf ''duo.png'') = Inr r
       \<and> shape r = [3, 2, 2]
       \<and> slice r 0 = [9 / 10, - (1 / 10), 9 / 10, - (1 / 10)]
       \<and> slice r 1 = [- (1 / 5), 1 / 5, - (1 / 5), 1 / 5]
       \<and> slice r 2 = [- (1 / 10), 1 / 2, - (1 / 10), 1 / 2]"
proof -
  let ?m = "[1 / 10, 1 / 5, 3 / 10] :: rat list"
  let ?ds = "pets\<lparr>resize := Some (2, 2), rgb_mean := Some ?m\<rparr>"
  have sh: "take 3 (shape_str ?ds) = ''chw'' \<or> take 3 (shape_str ?ds) = ''cwh''"
    using dataset_init_fields [OF pets_init] by (simp add: pets_args_def)
  have mean: "rgb_mean ?ds = Some ?m" "3 \<le> length ?m" by simp_all
  have found: "files shelf ''duo.png'' = Some duo" by (simp add: shelf_def)
  have img: "mode duo \<noteq> LA" by (simp add: duo_def)
  have sides: "\<forall>a b. resize ?ds = Some (a, b) \<longrightarrow> 0 < a \<and> 0 < b" by simp
  have scaled: "fst (load_image rat_arith nearest_pil (?ds\<lparr>rgb_mean := None\<rparr>) shelf ''duo.png'')
                  = Inr \<lparr>shape = [3, 2, 2],
                         elems = [1, 0, 1, 0, 0, 2 / 5, 0, 2 / 5, 1 / 5, 4 / 5, 1 / 5, 4 / 5]\<rparr>"
    by code_simp
  from mean_subtracted_per_channel_after_scaling
         [OF sh mean found img sides, of nearest_pil rat_arith]
  obtain s r
    where s: "fst (load_image rat_arith nearest_pil (?ds\<lparr>rgb_mean := None\<rparr>) shelf ''duo.png'')
                = Inr s"
      and r: "fst (load_image rat_arith nearest_pil ?ds shelf ''duo.png'') = Inr r"
      and eq: "shape r = shape s"
      and sl: "\<forall>k<3. slice r k = map (\<lambda>x. fsub rat_arith x (?m ! k)) (slice s k)"
    by blast
  from s scaled
  have sv: "s = \<lparr>shape = [3, 2, 2],
                  elems = [1, 0, 1, 0, 0, 2 / 5, 0, 2 / 5, 1 / 5, 4 / 5, 1 / 5, 4 / 5]\<rparr>"
    by simp
  have s0: "slice s 0 = [1, 0, 1, 0]" and s1: "slice s 1 = [0, 2 / 5, 0, 2 / 5]"
    and s2: "slice s 2 = [1 / 5, 4 / 5, 1 / 5, 4 / 5]"
    by (simp_all add: sv slice_def)
  from sl have "slice r 0 = map (\<lambda>x. fsub rat_arith x (?m ! 0)) (slice s 0)"
    and "slice r 1 = map (\<lambda>x. fsub rat_arith x (?m ! 1)) (slice s 1)"
    and "slice r 2 = map (\<lambda>x. fsub rat_arith x (?m ! 2)) (slice s 2)"
    by simp_all
  then have "slice r 0 = [9 / 10, - (1 / 10), 9 / 10, - (1 / 10)]"
    "slice r 1 = [- (1 / 5), 1 / 5, - (1 / 5), 1 / 5]"
    "slice r 2 = [- (1 / 10), 1 / 2, - (1 / 10), 1 / 2]"
    by (simp_all add: s0 s1 [simplified] s2 rat_arith_def)
  moreover have "shape r = [3, 2, 2]" using eq by (simp add: sv)
  ultimately show ?thesis using r by blast
qed

end
